theory Spec2Isabelle
  imports Complex_Main "HOL-Library.Sublist"
begin

section \<open>JavaScript values used by the upload pipeline\<close>

text \<open>
  The upload pipeline is TypeScript: \<^verbatim>\<open>GrantAPI\<close> (\<^verbatim>\<open>uploadDocuments\<close>,
  \<^verbatim>\<open>uploadDocumentsChunked\<close>), the \<^verbatim>\<open>ChunkedUploader\<close> class with
  \<^verbatim>\<open>needsChunkedUpload\<close> and \<^verbatim>\<open>uploadFiles\<close>, and the route handler of
  \<^verbatim>\<open>/api/upload-single\<close>. Every \<^verbatim>\<open>await\<close> is sequential, so an asynchronous function
  is modelled as a function that returns its result together with the list of events it
  caused (requests, progress callbacks, timer waits), in order. A \<^verbatim>\<open>throw\<close> or a rejected
  promise is the left summand of the result. Console output is not modelled.
\<close>

subsection \<open>Integers as decimal strings\<close>

text \<open>
  Sizes, indices, counters and status codes are integers below \<open>2^53\<close>; JavaScript computes
  with them exactly, so they are natural numbers here. A template literal prints such a
  number in decimal.
\<close>

definition digit_char :: "nat \<Rightarrow> char" where
  "digit_char d = ''0123456789'' ! (d mod 10)"

function show_nat :: "nat \<Rightarrow> string" where
  "show_nat n = (if n < 10 then [digit_char n] else show_nat (n div 10) @ [digit_char (n mod 10)])"
  by pat_completeness auto
termination
proof (relation "measure (\<lambda>n. n)")
  show "wf (measure (\<lambda>n::nat. n))" by simp
next
  fix n :: nat
  assume "\<not> n < 10"
  then have "n div 10 < n" by simp
  then show "(n div 10, n) \<in> measure (\<lambda>n. n)" by simp
qed

declare show_nat.simps [simp del]

definition dquote :: string where
  "dquote = [CHR 0x22]"

subsection \<open>Doubles\<close>

text \<open>
  A division or a multiplication of two Numbers rounds its exact result to the nearest
  double, ties to even (IEEE 754 binary64). \<open>to_double\<close> is that rounding on the reals, for
  the normal range (no overflow to infinity, no subnormals: every quotient below is at
  least \<open>2^-53\<close> and at most \<open>2^53\<close>). \<open>binade x\<close> is the exponent \<open>e\<close> with
  \<open>2^e \<le> x < 2^(e+1)\<close>, and a double has 53 significant bits.
\<close>

definition pow2 :: "int \<Rightarrow> real" where
  "pow2 e = (if 0 \<le> e then 2 ^ nat e else 1 / 2 ^ nat (- e))"

function halvings :: "real \<Rightarrow> nat" where
  "halvings x = (if x < 2 then 0 else Suc (halvings (x / 2)))"
  by pat_completeness auto
termination
proof (relation "measure (\<lambda>x. nat \<lfloor>x\<rfloor>)")
  show "wf (measure (\<lambda>x::real. nat \<lfloor>x\<rfloor>))" by simp
next
  fix x :: real
  assume a: "\<not> x < 2"
  have "x / 2 \<le> x - 1" using a by simp
  then have "\<lfloor>x / 2\<rfloor> \<le> \<lfloor>x - 1\<rfloor>" by (rule floor_mono)
  then have 1: "\<lfloor>x / 2\<rfloor> < \<lfloor>x\<rfloor>" by simp
  have "\<lfloor>2::real\<rfloor> \<le> \<lfloor>x\<rfloor>" using a by (intro floor_mono) simp
  then have 2: "0 < \<lfloor>x\<rfloor>" by simp
  from 1 2 show "(x / 2, x) \<in> measure (\<lambda>x. nat \<lfloor>x\<rfloor>)" by simp
qed

function doublings :: "real \<Rightarrow> nat" where
  "doublings x = (if x \<le> 0 \<or> 1 \<le> x then 0 else Suc (doublings (2 * x)))"
  by pat_completeness auto
termination
proof (relation "measure (\<lambda>x. nat \<lfloor>1 / x\<rfloor>)")
  show "wf (measure (\<lambda>x::real. nat \<lfloor>1 / x\<rfloor>))" by simp
next
  fix x :: real
  assume a: "\<not> (x \<le> 0 \<or> 1 \<le> x)"
  then have x: "0 < x" "x < 1" by auto
  define y where "y = 1 / x"
  have y: "1 \<le> y" using x by (simp add: y_def field_simps)
  have f1: "1 \<le> \<lfloor>y\<rfloor>" using y by (simp add: le_floor_iff)
  have "2 * of_int \<lfloor>y / 2\<rfloor> \<le> y" using of_int_floor_le [of "y / 2"] by simp
  then have "2 * \<lfloor>y / 2\<rfloor> \<le> \<lfloor>y\<rfloor>" by (simp add: le_floor_iff)
  with f1 have 1: "\<lfloor>y / 2\<rfloor> < \<lfloor>y\<rfloor>" by linarith
  have e: "1 / (2 * x) = y / 2" by (simp add: y_def)
  from 1 f1 have "nat \<lfloor>1 / (2 * x)\<rfloor> < nat \<lfloor>1 / x\<rfloor>"
    unfolding e y_def [symmetric] by simp
  then show "(2 * x, x) \<in> measure (\<lambda>x. nat \<lfloor>1 / x\<rfloor>)"
    by simp
qed

declare halvings.simps [simp del] doublings.simps [simp del]

definition binade :: "real \<Rightarrow> int" where
  "binade x = (if 1 \<le> x then int (halvings x) else - int (doublings x))"

definition round_half_even :: "real \<Rightarrow> int" where
  "round_half_even x =
     (let f = \<lfloor>x\<rfloor>; r = x - of_int f
      in if r < 1 / 2 then f else if 1 / 2 < r then f + 1 else if even f then f else f + 1)"

definition round_at :: "int \<Rightarrow> real \<Rightarrow> real" where
  "round_at e a = of_int (round_half_even (a / pow2 e)) * pow2 e"

definition to_double :: "real \<Rightarrow> real" where
  "to_double x = (if x = 0 then 0 else sgn x * round_at (binade \<bar>x\<bar> - 52) \<bar>x\<bar>)"

definition js_div :: "real \<Rightarrow> real \<Rightarrow> real" where
  "js_div a b = to_double (a / b)"

definition js_mul :: "real \<Rightarrow> real \<Rightarrow> real" where
  "js_mul a b = to_double (a * b)"

text \<open>
  \<^verbatim>\<open>Math.round\<close> rounds to the nearest integer, a tie towards \<open>+\<infinity>\<close>; \<^verbatim>\<open>Math.ceil\<close> is the
  ceiling. \<^verbatim>\<open>x.toFixed(2)\<close> takes the integer \<open>n\<close> with \<open>n / 100\<close> nearest to the exact
  value of \<open>x\<close> (the larger \<open>n\<close> on a tie) and prints it with two decimals; the model covers
  \<open>0 \<le> x < 10^21\<close>, where no exponent is printed.
\<close>

definition Math_round :: "real \<Rightarrow> int" where
  "Math_round x = \<lfloor>x + 1 / 2\<rfloor>"

definition Math_ceil :: "real \<Rightarrow> int" where
  "Math_ceil x = \<lceil>x\<rceil>"

definition toFixed2 :: "real \<Rightarrow> string" where
  "toFixed2 x =
     (let n = nat \<lfloor>x * 100 + 1 / 2\<rfloor>
      in show_nat (n div 100) @ ''.'' @ [digit_char (n mod 100 div 10), digit_char (n mod 10)])"

text \<open>The expression \<^verbatim>\<open>(size / 1024 / 1024).toFixed(2)\<close> of the error messages.\<close>

definition size_MB :: "nat \<Rightarrow> string" where
  "size_MB bytes = toFixed2 (js_div (js_div (of_nat bytes) 1024) 1024)"

subsection \<open>JSON values, property reads and errors\<close>

text \<open>
  \<open>Error\<close> is an error the code itself constructs with \<^verbatim>\<open>new Error(msg)\<close>. \<open>TypeError\<close> is
  raised by the engine on a property read of \<^verbatim>\<open>null\<close> or \<^verbatim>\<open>undefined\<close>, and by the
  \<^verbatim>\<open>Response\<close> constructor for a status that allows no body. \<open>RangeError\<close> is raised by the
  \<^verbatim>\<open>Response\<close> constructor for a status outside 200 to 599. \<open>Rejection\<close> is the error a
  platform promise rejects with (\<^verbatim>\<open>fetch\<close>, \<^verbatim>\<open>response.json()\<close>,
  \<^verbatim>\<open>request.formData()\<close>). All four are instances of \<^verbatim>\<open>Error\<close> and carry a message;
  the wording of an engine's message is the engine's (V8's and undici's are used, V8's
  without its quotes).
\<close>

datatype js_error = Error string | TypeError string | RangeError string | Rejection string

fun message :: "js_error \<Rightarrow> string" where
  "message (Error m) = m"
| "message (TypeError m) = m"
| "message (RangeError m) = m"
| "message (Rejection m) = m"

datatype json =
    JNull
  | JBool bool
  | JNum real
  | JStr string
  | JArr "json list"
  | JObj "(string \<times> json) list"

datatype js_value = Undefined | Json json

text \<open>
  \<^verbatim>\<open>v.key\<close> for a value \<open>v\<close> that \<^verbatim>\<open>response.json()\<close> returned, for the keys the code reads
  (\<^verbatim>\<open>uploadId\<close>, \<^verbatim>\<open>url\<close>, \<^verbatim>\<open>artifact_ids\<close>): \<^verbatim>\<open>null\<close> throws, an object gives the member
  or \<^verbatim>\<open>undefined\<close>, any other value has no such property.
\<close>

fun get_prop :: "json \<Rightarrow> string \<Rightarrow> js_error + js_value" where
  "get_prop JNull k = Inl (TypeError (''Cannot read properties of null (reading '' @ k @ '')''))"
| "get_prop (JObj kvs) k = Inr (case map_of kvs k of None \<Rightarrow> Undefined | Some v \<Rightarrow> Json v)"
| "get_prop _ k = Inr Undefined"

fun truthy :: "js_value \<Rightarrow> bool" where
  "truthy Undefined = False"
| "truthy (Json JNull) = False"
| "truthy (Json (JBool b)) = b"
| "truthy (Json (JNum x)) = (x \<noteq> 0)"
| "truthy (Json (JStr s)) = (s \<noteq> [])"
| "truthy (Json (JArr xs)) = True"
| "truthy (Json (JObj kvs)) = True"

section \<open>Files, requests and the event trace\<close>

text \<open>
  A browser \<^verbatim>\<open>File\<close>: its name, its size in bytes and its MIME type. \<^verbatim>\<open>file.slice(s, e)\<close>
  is the blob of the bytes \<open>[s, e)\<close>, both bounds clamped to the size.
\<close>

record File =
  name :: string
  size_f :: nat
  type_f :: string

datatype part = PFile File | PBlob File nat nat | PValue js_value | PText string

definition slice :: "File \<Rightarrow> nat \<Rightarrow> nat \<Rightarrow> part" where
  "slice f s e = PBlob f (min s (size_f f)) (max (min s (size_f f)) (min e (size_f f)))"

text \<open>
  A request body is a \<^verbatim>\<open>FormData\<close> (the appended fields, in order) or the object given
  to \<^verbatim>\<open>JSON.stringify\<close>.
\<close>

datatype body = Multipart "(string \<times> part) list" | JsonBody "(string \<times> js_value) list"

datatype request =
  Request (url: string) (http_method: string) (headers: "(string \<times> string) list") (body: body)

text \<open>
  \<^verbatim>\<open>fetch\<close> rejects (\<open>NetworkFailure\<close>) or resolves to a response: its status, what
  \<^verbatim>\<open>response.text()\<close> returns, and what \<^verbatim>\<open>response.json()\<close> returns (\<open>Inl\<close> when the body
  is not JSON and the promise rejects).
\<close>

datatype response =
    NetworkFailure string
  | Response (status: nat) (text_of: string) (json_of: "string + json")

definition ok :: "nat \<Rightarrow> bool" where
  "ok st = (200 \<le> st \<and> st \<le> 299)"

record ChunkedUploadResult =
  success :: bool
  uploadId :: js_value
  fileName :: string
  finalUrl :: "js_value option"
  error :: "string option"

record ChunkUploadProgress =
  fileName :: string
  chunkIndex :: nat
  totalChunks :: nat
  uploadedBytes :: nat
  totalBytes :: nat
  percentage :: int

text \<open>
  The events of a run, in order. \<open>Fetch\<close> is a call of \<^verbatim>\<open>fetch\<close>. \<open>Progress p\<close> is the
  statement \<^verbatim>\<open>this.onProgress?.(p)\<close> of the uploader: its callback, if one was given, is
  invoked with \<open>p\<close>. \<open>FileProgress\<close> is the statement \<^verbatim>\<open>onProgress?.(file.name, 100)\<close> of
  \<^verbatim>\<open>uploadFiles\<close>. \<open>Delay\<close> is an awaited \<^verbatim>\<open>setTimeout\<close> of so many milliseconds. In
  \<^verbatim>\<open>uploadFiles\<close> the uploader's callback is the arrow function that passes \<^verbatim>\<open>file.name\<close>
  and \<^verbatim>\<open>p.percentage\<close> on to the optional \<^verbatim>\<open>onProgress\<close>, so there a \<open>Progress\<close> event
  stands for that call too. The network is any function from the events so far and the
  request to its response.

  A callback makes no request, but it is the caller's code and may throw. Its behaviour is
  a function from the events so far and its arguments to the outcome of the call:
  \<open>Returns\<close>, or \<open>Throws m\<close> for a thrown value whose message (or string form) is \<open>m\<close>. A
  callback that was not given is the one that always returns.
\<close>

datatype event =
    Fetch request
  | Progress ChunkUploadProgress
  | FileProgress string int
  | Delay nat

type_synonym network = "event list \<Rightarrow> request \<Rightarrow> response"

datatype callback_outcome = Returns | Throws string

type_synonym progress_callback = "event list \<Rightarrow> ChunkUploadProgress \<Rightarrow> callback_outcome"

type_synonym file_callback = "event list \<Rightarrow> string \<Rightarrow> int \<Rightarrow> callback_outcome"

type_synonym 'a outcome = "(js_error + 'a) \<times> event list"

section \<open>The chunked uploader\<close>

definition CHUNK_SIZE :: nat where
  "CHUNK_SIZE = 5 * 1024 * 1024"

definition MAX_RETRIES :: nat where
  "MAX_RETRIES = 3"

definition json_headers :: "(string \<times> string) list" where
  "json_headers = [(''Content-Type'', ''application/json'')]"

definition init_request :: "string \<Rightarrow> nat \<Rightarrow> nat \<Rightarrow> request" where
  "init_request fname bytes chunks =
     Request ''/api/upload/init'' ''POST'' json_headers
       (JsonBody [(''fileName'', Json (JStr fname)),
                  (''totalBytes'', Json (JNum (of_nat bytes))),
                  (''totalChunks'', Json (JNum (of_nat chunks)))])"

definition initializeUpload :: "network \<Rightarrow> event list \<Rightarrow> string \<Rightarrow> nat \<Rightarrow> nat \<Rightarrow> js_value outcome" where
  "initializeUpload net h fname bytes chunks =
     (case net h (init_request fname bytes chunks) of
        NetworkFailure m \<Rightarrow> Inl (Rejection m)
      | Response st txt js \<Rightarrow>
          if \<not> ok st then Inl (Error (''Failed to initialize upload: '' @ show_nat st))
          else (case js of Inl m \<Rightarrow> Inl (Rejection m) | Inr result \<Rightarrow> get_prop result ''uploadId''),
      [Fetch (init_request fname bytes chunks)])"

definition chunk_request :: "js_value \<Rightarrow> nat \<Rightarrow> part \<Rightarrow> request" where
  "chunk_request uid idx chunk =
     Request ''/api/upload/chunk'' ''POST'' []
       (Multipart [(''uploadId'', PValue uid),
                   (''chunkIndex'', PText (show_nat idx)),
                   (''chunk'', chunk)])"

definition uploadChunk :: "network \<Rightarrow> event list \<Rightarrow> js_value \<Rightarrow> nat \<Rightarrow> part \<Rightarrow> unit outcome" where
  "uploadChunk net h uid idx chunk =
     (case net h (chunk_request uid idx chunk) of
        NetworkFailure m \<Rightarrow> Inl (Rejection m)
      | Response st txt js \<Rightarrow>
          if \<not> ok st then Inl (Error (''Failed to upload chunk: '' @ show_nat st)) else Inr (),
      [Fetch (chunk_request uid idx chunk)])"

definition finalize_request :: "js_value \<Rightarrow> request" where
  "finalize_request uid =
     Request ''/api/upload/finalize'' ''POST'' json_headers (JsonBody [(''uploadId'', uid)])"

definition finalizeUpload :: "network \<Rightarrow> event list \<Rightarrow> js_value \<Rightarrow> js_value outcome" where
  "finalizeUpload net h uid =
     (case net h (finalize_request uid) of
        NetworkFailure m \<Rightarrow> Inl (Rejection m)
      | Response st txt js \<Rightarrow>
          if \<not> ok st then Inl (Error (''Failed to finalize upload: '' @ show_nat st))
          else (case js of Inl m \<Rightarrow> Inl (Rejection m) | Inr result \<Rightarrow> get_prop result ''url''),
      [Fetch (finalize_request uid)])"

text \<open>
  The values of one iteration of the \<^verbatim>\<open>for\<close> loop of \<^verbatim>\<open>uploadFile\<close>: \<^verbatim>\<open>start\<close>, \<^verbatim>\<open>end\<close>,
  the sliced \<^verbatim>\<open>chunk\<close>, and the progress record reported after the chunk is accepted.
\<close>

definition total_chunks :: "nat \<Rightarrow> nat" where
  "total_chunks bytes = nat (Math_ceil (js_div (of_nat bytes) (of_nat CHUNK_SIZE)))"

definition chunk_start :: "nat \<Rightarrow> nat" where
  "chunk_start idx = idx * CHUNK_SIZE"

definition chunk_end :: "nat \<Rightarrow> nat \<Rightarrow> nat" where
  "chunk_end bytes idx = min (chunk_start idx + CHUNK_SIZE) bytes"

definition chunk_of :: "File \<Rightarrow> nat \<Rightarrow> part" where
  "chunk_of f idx = slice f (chunk_start idx) (chunk_end (size_f f) idx)"

definition percent :: "nat \<Rightarrow> nat \<Rightarrow> int" where
  "percent uploaded bytes = Math_round (js_mul (js_div (of_nat uploaded) (of_nat bytes)) 100)"

definition progress_of :: "File \<Rightarrow> nat \<Rightarrow> nat \<Rightarrow> ChunkUploadProgress" where
  "progress_of f n idx =
     \<lparr>fileName = name f, chunkIndex = idx, totalChunks = n,
      uploadedBytes = chunk_end (size_f f) idx, totalBytes = size_f f,
      percentage = percent (chunk_end (size_f f) idx) (size_f f)\<rparr>"

definition chunk_failure :: "nat \<Rightarrow> js_error" where
  "chunk_failure idx =
     Error (''Failed to upload chunk '' @ show_nat (idx + 1) @ '' after ''
            @ show_nat MAX_RETRIES @ '' attempts'')"

text \<open>
  The \<^verbatim>\<open>while (!success && retries < MAX_RETRIES)\<close> loop for one chunk, entered with the
  given \<^verbatim>\<open>retries\<close> and \<^verbatim>\<open>success = false\<close>. The \<^verbatim>\<open>try\<close> block posts the chunk, sets
  \<^verbatim>\<open>success = true\<close> and then reports progress. When the post fails, the \<^verbatim>\<open>catch\<close> block
  increments \<^verbatim>\<open>retries\<close>, throws when the bound is reached and otherwise waits
  \<^verbatim>\<open>1000 * retries\<close> milliseconds, and the loop goes round again. When the post is accepted
  and the callback throws, the same \<^verbatim>\<open>catch\<close> block runs, with \<^verbatim>\<open>success\<close> already
  \<^verbatim>\<open>true\<close>: it throws when the bound is reached, and otherwise the loop ends after the wait.
\<close>

function uploadChunk_retry ::
  "network \<Rightarrow> progress_callback \<Rightarrow> event list \<Rightarrow> File \<Rightarrow> js_value \<Rightarrow> nat \<Rightarrow> nat \<Rightarrow> nat
     \<Rightarrow> unit outcome" where
  "uploadChunk_retry net onProgress h f uid n i retries =
     (if retries < MAX_RETRIES then
        (case uploadChunk net h uid i (chunk_of f i) of
           (Inr u, ev) \<Rightarrow>
             (case onProgress (h @ ev) (progress_of f n i) of
                Returns \<Rightarrow> (Inr (), ev @ [Progress (progress_of f n i)])
              | Throws m \<Rightarrow>
                  if MAX_RETRIES \<le> retries + 1
                  then (Inl (chunk_failure i), ev @ [Progress (progress_of f n i)])
                  else (Inr (), ev @ [Progress (progress_of f n i),
                                      Delay (1000 * (retries + 1))]))
         | (Inl err, ev) \<Rightarrow>
             if MAX_RETRIES \<le> retries + 1 then (Inl (chunk_failure i), ev)
             else (case uploadChunk_retry net onProgress
                          (h @ ev @ [Delay (1000 * (retries + 1))]) f uid n i (retries + 1) of
                     (r, ev') \<Rightarrow> (r, ev @ [Delay (1000 * (retries + 1))] @ ev')))
      else (Inr (), []))"
  by pat_completeness auto
termination
proof (relation "measure (\<lambda>(net, onProgress, h, f, uid, n, i, retries). MAX_RETRIES - retries)")
  show "wf (measure (\<lambda>(net :: network, onProgress :: progress_callback, h :: event list,
      f :: File, uid :: js_value, n :: nat, i :: nat, retries). MAX_RETRIES - retries))"
    by simp
next
  fix net :: network and onProgress :: progress_callback and h :: "event list" and f :: File
    and uid :: js_value and n i retries :: nat and x2 :: "event list"
  assume "retries < MAX_RETRIES" "\<not> MAX_RETRIES \<le> retries + 1"
  then show "((net, onProgress, h @ x2 @ [Delay (1000 * (retries + 1))], f, uid, n, i,
               retries + 1),
              net, onProgress, h, f, uid, n, i, retries)
             \<in> measure (\<lambda>(net, onProgress, h, f, uid, n, i, retries). MAX_RETRIES - retries)"
    by simp
qed

declare uploadChunk_retry.simps [simp del]

text \<open>The \<^verbatim>\<open>for (let chunkIndex = 0; chunkIndex < totalChunks; chunkIndex++)\<close> loop, from the
  given index on: a chunk whose retry loop throws ends the loop with that error.\<close>

function uploadChunks ::
  "network \<Rightarrow> progress_callback \<Rightarrow> event list \<Rightarrow> File \<Rightarrow> js_value \<Rightarrow> nat \<Rightarrow> nat
     \<Rightarrow> unit outcome" where
  "uploadChunks net onProgress h f uid n i =
     (if i < n then
        (case uploadChunk_retry net onProgress h f uid n i 0 of
           (Inl err, ev) \<Rightarrow> (Inl err, ev)
         | (Inr u, ev) \<Rightarrow>
             (case uploadChunks net onProgress (h @ ev) f uid n (i + 1) of
                (r, ev') \<Rightarrow> (r, ev @ ev')))
      else (Inr (), []))"
  by pat_completeness auto
termination
proof (relation "measure (\<lambda>(net, onProgress, h, f, uid, n, i). n - i)")
  show "wf (measure (\<lambda>(net :: network, onProgress :: progress_callback, h :: event list,
      f :: File, uid :: js_value, n :: nat, i :: nat). n - i))"
    by simp
next
  fix net :: network and onProgress :: progress_callback and h :: "event list" and f :: File
    and uid :: js_value and n i :: nat and x2 :: "event list"
  assume "i < n"
  then show "((net, onProgress, h @ x2, f, uid, n, i + 1), net, onProgress, h, f, uid, n, i)
             \<in> measure (\<lambda>(net, onProgress, h, f, uid, n, i). n - i)"
    by simp
qed

declare uploadChunks.simps [simp del]

text \<open>
  \<^verbatim>\<open>uploadFile\<close> of an uploader constructed with the callback \<open>onProgress\<close>: the body of its
  \<^verbatim>\<open>try\<close> block (\<open>uploadFile_try\<close>), and the whole method with the \<^verbatim>\<open>catch\<close> that turns
  every thrown error into a failure result.
\<close>

definition uploadFile_try ::
  "network \<Rightarrow> progress_callback \<Rightarrow> event list \<Rightarrow> File \<Rightarrow> ChunkedUploadResult outcome" where
  "uploadFile_try net onProgress h f =
     (case initializeUpload net h (name f) (size_f f) (total_chunks (size_f f)) of
        (Inl err, ev0) \<Rightarrow> (Inl err, ev0)
      | (Inr uid, ev0) \<Rightarrow>
          (case uploadChunks net onProgress (h @ ev0) f uid (total_chunks (size_f f)) 0 of
             (Inl err, ev1) \<Rightarrow> (Inl err, ev0 @ ev1)
           | (Inr u, ev1) \<Rightarrow>
               (case finalizeUpload net (h @ ev0 @ ev1) uid of
                  (Inl err, ev2) \<Rightarrow> (Inl err, ev0 @ ev1 @ ev2)
                | (Inr final, ev2) \<Rightarrow>
                    (Inr \<lparr>success = True, uploadId = uid,
                          ChunkedUploadResult.fileName = name f,
                          finalUrl = Some final, error = None\<rparr>,
                     ev0 @ ev1 @ ev2))))"

definition uploadFile ::
  "network \<Rightarrow> progress_callback \<Rightarrow> event list \<Rightarrow> File \<Rightarrow> ChunkedUploadResult outcome" where
  "uploadFile net onProgress h f =
     (case uploadFile_try net onProgress h f of
        (Inr r, ev) \<Rightarrow> (Inr r, ev)
      | (Inl err, ev) \<Rightarrow>
          (Inr \<lparr>success = False, uploadId = Json (JStr ''''),
                ChunkedUploadResult.fileName = name f,
                finalUrl = None, error = Some (message err)\<rparr>,
           ev))"

section \<open>The size classifier and the mixed helper\<close>

definition needsChunkedUpload :: "File \<Rightarrow> bool" where
  "needsChunkedUpload f = (25 * 1024 * 1024 < size_f f)"

text \<open>
  An element of the \<^verbatim>\<open>results\<close> array of \<^verbatim>\<open>uploadFiles\<close>:
  \<^verbatim>\<open>{fileName, uploadId, url, method: 'chunked'}\<close> or \<^verbatim>\<open>{fileName, result, method: 'simple'}\<close>.
\<close>

datatype upload_entry =
    ChunkedEntry string js_value "js_value option"
  | SimpleEntry string json

datatype files_outcome =
  FilesOutcome (all_ok: bool) (results: "upload_entry list") (errors: "string list")

definition simple_request :: "File \<Rightarrow> request" where
  "simple_request f = Request ''/api/upload'' ''POST'' [] (Multipart [(''files'', PFile f)])"

text \<open>
  One iteration of the \<^verbatim>\<open>for (const file of files)\<close> loop of \<^verbatim>\<open>uploadFiles\<close>, with its
  \<^verbatim>\<open>try\<close>/\<^verbatim>\<open>catch\<close>, on the accumulated \<^verbatim>\<open>results\<close> and \<^verbatim>\<open>errors\<close>. The uploader is
  constructed with the arrow function that calls \<^verbatim>\<open>onProgress?.(file.name, p.percentage)\<close>.
  On the simple path the entry is pushed to \<^verbatim>\<open>results\<close> before \<^verbatim>\<open>onProgress\<close> is called,
  so a callback that throws there adds an error next to the entry.
\<close>

definition uploadFiles_step ::
  "network \<Rightarrow> file_callback \<Rightarrow> event list \<Rightarrow> File \<Rightarrow> upload_entry list \<times> string list
     \<Rightarrow> (upload_entry list \<times> string list) \<times> event list" where
  "uploadFiles_step net onProgress h f acc =
     (case acc of (res, errs) \<Rightarrow>
        if needsChunkedUpload f then
          (case uploadFile net (\<lambda>h' p. onProgress h' (name f) (percentage p)) h f of
             (Inl err, ev) \<Rightarrow> ((res, errs @ [name f @ '': '' @ message err]), ev)
           | (Inr r, ev) \<Rightarrow>
               if success r
               then ((res @ [ChunkedEntry (name f) (uploadId r) (finalUrl r)], errs), ev)
               else ((res, errs @ [name f @ '': ''
                        @ (case error r of None \<Rightarrow> ''undefined'' | Some m \<Rightarrow> m)]), ev))
        else
          (case net h (simple_request f) of
             NetworkFailure m \<Rightarrow> ((res, errs @ [name f @ '': '' @ m]), [Fetch (simple_request f)])
           | Response st txt js \<Rightarrow>
               if ok st then
                 (case js of
                    Inl m \<Rightarrow> ((res, errs @ [name f @ '': '' @ m]), [Fetch (simple_request f)])
                  | Inr result \<Rightarrow>
                      ((res @ [SimpleEntry (name f) result],
                        (case onProgress (h @ [Fetch (simple_request f)]) (name f) 100 of
                           Returns \<Rightarrow> errs
                         | Throws m \<Rightarrow> errs @ [name f @ '': '' @ m])),
                       [Fetch (simple_request f), FileProgress (name f) 100]))
               else ((res, errs @ [name f @ '': '' @ txt]), [Fetch (simple_request f)])))"

fun uploadFiles_loop ::
  "network \<Rightarrow> file_callback \<Rightarrow> event list \<Rightarrow> File list \<Rightarrow> upload_entry list \<times> string list
     \<Rightarrow> (upload_entry list \<times> string list) \<times> event list" where
  "uploadFiles_loop net onProgress h [] acc = (acc, [])"
| "uploadFiles_loop net onProgress h (f # fs) acc =
     (case uploadFiles_step net onProgress h f acc of
        (acc', ev) \<Rightarrow>
          (case uploadFiles_loop net onProgress (h @ ev) fs acc' of
             (r, ev') \<Rightarrow> (r, ev @ ev')))"

definition uploadFiles ::
  "network \<Rightarrow> file_callback \<Rightarrow> event list \<Rightarrow> File list \<Rightarrow> files_outcome \<times> event list" where
  "uploadFiles net onProgress h files =
     (case uploadFiles_loop net onProgress h files ([], []) of
        ((res, errs), ev) \<Rightarrow> (FilesOutcome (errs = []) res errs, ev))"

section \<open>The API client\<close>

definition single_request :: "File \<Rightarrow> request" where
  "single_request f = Request ''/api/upload-single'' ''POST'' [] (Multipart [(''files'', PFile f)])"

text \<open>
  The \<^verbatim>\<open>for (const file of files)\<close> loop of \<^verbatim>\<open>uploadDocumentsChunked\<close>: each file is put
  whole into a form of its own and posted to \<^verbatim>\<open>/api/upload-single\<close>; the parsed responses
  are collected in order.
\<close>

fun uploadSingles :: "network \<Rightarrow> event list \<Rightarrow> File list \<Rightarrow> json list outcome" where
  "uploadSingles net h [] = (Inr [], [])"
| "uploadSingles net h (f # fs) =
     (case net h (single_request f) of
        NetworkFailure m \<Rightarrow> (Inl (Rejection m), [Fetch (single_request f)])
      | Response st txt js \<Rightarrow>
          if \<not> ok st
          then (Inl (Error (''Upload failed for '' @ name f @ '': '' @ show_nat st)),
                [Fetch (single_request f)])
          else (case js of
                  Inl m \<Rightarrow> (Inl (Rejection m), [Fetch (single_request f)])
                | Inr result \<Rightarrow>
                    (case uploadSingles net (h @ [Fetch (single_request f)]) fs of
                       (Inl err, ev) \<Rightarrow> (Inl err, Fetch (single_request f) # ev)
                     | (Inr rs, ev) \<Rightarrow> (Inr (result # rs), Fetch (single_request f) # ev))))"

text \<open>
  \<^verbatim>\<open>results.flatMap(r => r.artifact_ids || [])\<close>: a falsy member gives nothing, an array
  gives its elements, any other truthy value gives itself.
\<close>

definition artifact_ids_of :: "json \<Rightarrow> js_error + json list" where
  "artifact_ids_of r =
     (case get_prop r ''artifact_ids'' of
        Inl err \<Rightarrow> Inl err
      | Inr v \<Rightarrow>
          if truthy v
          then (case v of Undefined \<Rightarrow> Inr [] | Json (JArr xs) \<Rightarrow> Inr xs | Json j \<Rightarrow> Inr [j])
          else Inr [])"

fun flatMap_artifact_ids :: "json list \<Rightarrow> js_error + json list" where
  "flatMap_artifact_ids [] = Inr []"
| "flatMap_artifact_ids (r # rs) =
     (case artifact_ids_of r of
        Inl err \<Rightarrow> Inl err
      | Inr xs \<Rightarrow>
          (case flatMap_artifact_ids rs of Inl err \<Rightarrow> Inl err | Inr ys \<Rightarrow> Inr (xs @ ys)))"

definition uploadDocumentsChunked :: "network \<Rightarrow> event list \<Rightarrow> File list \<Rightarrow> json outcome" where
  "uploadDocumentsChunked net h files =
     (case uploadSingles net h files of
        (Inl err, ev) \<Rightarrow> (Inl err, ev)
      | (Inr rs, ev) \<Rightarrow>
          (case flatMap_artifact_ids rs of
             Inl err \<Rightarrow> (Inl err, ev)
           | Inr ids \<Rightarrow>
               (Inr (JObj [(''success'', JBool True),
                           (''artifact_ids'', JArr ids),
                           (''message'', JStr (''Uploaded '' @ show_nat (length files)
                                @ '' large documents successfully (chunked)'')),
                           (''upload_method'', JStr ''chunked'')]),
                ev)))"

definition MAX_FILE_SIZE :: nat where
  "MAX_FILE_SIZE = 500 * 1024 * 1024"

definition MAX_TOTAL_SIZE :: nat where
  "MAX_TOTAL_SIZE = 500 * 1024 * 1024"

definition CLOUD_RUN_LIMIT :: nat where
  "CLOUD_RUN_LIMIT = 30 * 1024 * 1024"

definition file_too_large :: "File \<Rightarrow> js_error" where
  "file_too_large f =
     Error (''File '' @ dquote @ name f @ dquote @ '' is '' @ size_MB (size_f f)
            @ ''MB. Maximum file size is 500MB.'')"

definition total_too_large :: "nat \<Rightarrow> js_error" where
  "total_too_large totalSize =
     Error (''Total upload size is '' @ size_MB totalSize
            @ ''MB. Maximum total size is 500MB. Please upload fewer files at once.'')"

text \<open>The loop \<^verbatim>\<open>for (const file of files) if (file.size > MAX_FILE_SIZE) throw ...\<close>.\<close>

fun check_file_sizes :: "File list \<Rightarrow> js_error option" where
  "check_file_sizes [] = None"
| "check_file_sizes (f # fs) =
     (if MAX_FILE_SIZE < size_f f then Some (file_too_large f) else check_file_sizes fs)"

definition total_size :: "File list \<Rightarrow> nat" where
  "total_size files = foldl (\<lambda>sum f. sum + size_f f) 0 files"

definition upload_request :: "File list \<Rightarrow> request" where
  "upload_request files =
     Request ''/api/upload'' ''POST'' [] (Multipart (map (\<lambda>f. (''files'', PFile f)) files))"

text \<open>
  \<^verbatim>\<open>uploadDocuments(files)\<close>. The argument is \<open>None\<close> for a missing list (\<^verbatim>\<open>null\<close> or
  \<^verbatim>\<open>undefined\<close>). The first statements of the \<^verbatim>\<open>try\<close> block log \<^verbatim>\<open>files.length\<close> and
  \<^verbatim>\<open>files.map(...)\<close>, which read a property of the argument before the guard
  \<^verbatim>\<open>!files || files.length === 0\<close> is reached. Both \<^verbatim>\<open>catch\<close> blocks rethrow.
\<close>

definition uploadDocuments :: "network \<Rightarrow> event list \<Rightarrow> File list option \<Rightarrow> json outcome" where
  "uploadDocuments net h arg =
     (case arg of
        None \<Rightarrow> (Inl (TypeError ''Cannot read properties of undefined (reading length)''), [])
      | Some files \<Rightarrow>
          if files = [] then (Inl (Error ''No files provided for upload''), [])
          else
            (case check_file_sizes files of
               Some err \<Rightarrow> (Inl err, [])
             | None \<Rightarrow>
                 if MAX_TOTAL_SIZE < total_size files
                 then (Inl (total_too_large (total_size files)), [])
                 else if CLOUD_RUN_LIMIT < total_size files
                 then uploadDocumentsChunked net h files
                 else
                   (case net h (upload_request files) of
                      NetworkFailure m \<Rightarrow> (Inl (Rejection m), [Fetch (upload_request files)])
                    | Response st txt js \<Rightarrow>
                        if \<not> ok st
                        then (Inl (Error (''HTTP error! status: '' @ show_nat st
                                      @ '', body: '' @ txt)),
                              [Fetch (upload_request files)])
                        else (case js of
                                Inl m \<Rightarrow> (Inl (Rejection m), [Fetch (upload_request files)])
                              | Inr result \<Rightarrow> (Inr result, [Fetch (upload_request files)])))))"

section \<open>The single-file upload proxy\<close>

text \<open>
  The route handler \<^verbatim>\<open>POST\<close> of \<^verbatim>\<open>/api/upload-single\<close>. Its inputs are the outcome of
  \<^verbatim>\<open>request.formData()\<close> and the backend, a function from the forwarded request to the
  outcome of its \<^verbatim>\<open>fetch\<close> (a rejection covers the abort). The forwarded request carries
  the signal of an \<^verbatim>\<open>AbortController\<close> that a timer aborts after \<open>abort_after_ms\<close>.

  \<^verbatim>\<open>NextResponse.json(body, {status})\<close> builds a \<^verbatim>\<open>Response\<close> with a body, and the
  \<^verbatim>\<open>Response\<close> constructor refuses some statuses: it throws a \<^verbatim>\<open>RangeError\<close> for a status
  outside 200 to 599 and a \<^verbatim>\<open>TypeError\<close> for a status that allows no body (204, 205 and
  304 within that range). Without a status the response has status 200.
\<close>

datatype backend_request =
  BackendRequest (b_url: string) (b_method: string) (b_body: "(string \<times> part) list")
    (abort_after_ms: nat)

datatype proxy_event = SetTimeout nat | Forward backend_request | ClearTimeout

datatype next_response = NextResponse (resp_body: json) (resp_status: nat)

definition null_body_status :: "nat \<Rightarrow> bool" where
  "null_body_status st = (st = 101 \<or> st = 103 \<or> st = 204 \<or> st = 205 \<or> st = 304)"

definition NextResponse_json :: "json \<Rightarrow> nat \<Rightarrow> js_error + next_response" where
  "NextResponse_json data st =
     (if st < 200 \<or> 599 < st
      then Inl (RangeError (''init['' @ dquote @ ''status'' @ dquote
                  @ ''] must be in the range of 200 to 599, inclusive.''))
      else if null_body_status st
      then Inl (TypeError (''Response constructor: Invalid response status code ''
                  @ show_nat st))
      else Inr (NextResponse data st))"

definition proxy_error :: "string \<Rightarrow> json" where
  "proxy_error m =
     JObj [(''success'', JBool False), (''error'', JStr ''Proxy server error''),
           (''details'', JStr m)]"

definition backend_error :: "nat \<Rightarrow> string \<Rightarrow> json" where
  "backend_error st errorText =
     JObj [(''success'', JBool False), (''error'', JStr (''Backend error: '' @ show_nat st)),
           (''details'', JStr errorText)]"

definition forward_request :: "string \<Rightarrow> (string \<times> part) list \<Rightarrow> backend_request" where
  "forward_request api_base formData =
     BackendRequest (api_base @ ''/upload_documents'') ''POST'' formData 600000"

text \<open>
  The \<^verbatim>\<open>try\<close> block of the handler (\<open>POST_try\<close>): whatever throws in it, the two calls of
  \<^verbatim>\<open>NextResponse.json\<close> included, is caught by the \<^verbatim>\<open>catch\<close> block of \<open>POST\<close>, which
  answers with status 500.
\<close>

definition POST_try ::
  "string \<Rightarrow> string + (string \<times> part) list \<Rightarrow> (backend_request \<Rightarrow> response)
     \<Rightarrow> (js_error + next_response) \<times> proxy_event list" where
  "POST_try api_base form backend =
     (case form of
        Inl m \<Rightarrow> (Inl (Rejection m), [])
      | Inr formData \<Rightarrow>
          (case backend (forward_request api_base formData) of
             NetworkFailure m \<Rightarrow>
               (Inl (Rejection m),
                [SetTimeout 600000, Forward (forward_request api_base formData)])
           | Response st txt js \<Rightarrow>
               if \<not> ok st
               then (NextResponse_json (backend_error st txt) st,
                     [SetTimeout 600000, Forward (forward_request api_base formData), ClearTimeout])
               else (case js of
                       Inl m \<Rightarrow>
                         (Inl (Rejection m),
                          [SetTimeout 600000, Forward (forward_request api_base formData),
                           ClearTimeout])
                     | Inr result \<Rightarrow>
                         (NextResponse_json result 200,
                          [SetTimeout 600000, Forward (forward_request api_base formData),
                           ClearTimeout]))))"

definition POST ::
  "string \<Rightarrow> string + (string \<times> part) list \<Rightarrow> (backend_request \<Rightarrow> response)
     \<Rightarrow> (js_error + next_response) \<times> proxy_event list" where
  "POST api_base form backend =
     (case POST_try api_base form backend of
        (Inr r, ev) \<Rightarrow> (Inr r, ev)
      | (Inl err, ev) \<Rightarrow> (NextResponse_json (proxy_error (message err)) 500, ev))"

section \<open>Observations on a run\<close>

text \<open>
  What the theorems observe of a run. A response is accepted when \<^verbatim>\<open>fetch\<close> resolved and
  \<^verbatim>\<open>response.ok\<close> holds. \<open>progress_events\<close> and \<open>requests_of\<close> project a trace to the
  progress records and to the requests, in order. \<open>accepted_chunk_posts net h ev\<close> are the
  requests to the chunk endpoint in the trace \<open>ev\<close>, begun after the events \<open>h\<close>, that the
  network accepted, in order. \<open>failure_result\<close> is the object the \<^verbatim>\<open>catch\<close> block of
  \<^verbatim>\<open>uploadFile\<close> returns.
\<close>

definition accepted :: "response \<Rightarrow> bool" where
  "accepted resp = (case resp of NetworkFailure m \<Rightarrow> False | Response st tx js \<Rightarrow> ok st)"

fun progress_events :: "event list \<Rightarrow> ChunkUploadProgress list" where
  "progress_events [] = []"
| "progress_events (Progress p # es) = p # progress_events es"
| "progress_events (e # es) = progress_events es"

fun requests_of :: "event list \<Rightarrow> request list" where
  "requests_of [] = []"
| "requests_of (Fetch r # es) = r # requests_of es"
| "requests_of (e # es) = requests_of es"

fun accepted_chunk_posts :: "network \<Rightarrow> event list \<Rightarrow> event list \<Rightarrow> request list" where
  "accepted_chunk_posts net h [] = []"
| "accepted_chunk_posts net h (Fetch r # es) =
     (if url r = ''/api/upload/chunk'' \<and> accepted (net h r) then [r] else [])
       @ accepted_chunk_posts net (h @ [Fetch r]) es"
| "accepted_chunk_posts net h (e # es) = accepted_chunk_posts net (h @ [e]) es"

definition returns :: "callback_outcome \<Rightarrow> bool" where
  "returns c = (case c of Returns \<Rightarrow> True | Throws m \<Rightarrow> False)"

definition failure_result :: "File \<Rightarrow> string \<Rightarrow> ChunkedUploadResult" where
  "failure_result f m =
     \<lparr>success = False, uploadId = Json (JStr ''''), ChunkedUploadResult.fileName = name f,
      finalUrl = None, error = Some m\<rparr>"

text \<open>
  \<open>at_chunk net onProgress h f uid n i ev\<close>: the \<^verbatim>\<open>for\<close> loop of \<^verbatim>\<open>uploadFile\<close>, entered
  after the events \<open>h\<close>, stands at the head of iteration \<open>i\<close> after the further events
  \<open>ev\<close>: the retry loop of every chunk before \<open>i\<close> has ended without throwing.
\<close>

inductive at_chunk ::
  "network \<Rightarrow> progress_callback \<Rightarrow> event list \<Rightarrow> File \<Rightarrow> js_value \<Rightarrow> nat \<Rightarrow> nat \<Rightarrow> event list
     \<Rightarrow> bool"
  for net :: network and onProgress :: progress_callback and h :: "event list" and f :: File
    and uid :: js_value and n :: nat where
    at_first: "at_chunk net onProgress h f uid n 0 []"
  | at_next: "at_chunk net onProgress h f uid n i ev \<Longrightarrow> i < n
      \<Longrightarrow> uploadChunk_retry net onProgress (h @ ev) f uid n i 0 = (Inr (), ev')
      \<Longrightarrow> at_chunk net onProgress h f uid n (i + 1) (ev @ ev')"

text \<open>
  Two conditions on a network: it accepts every request, and it answers every request to
  a given endpoint with a body that parses as JSON and is not \<^verbatim>\<open>null\<close> (a property read
  of \<^verbatim>\<open>null\<close> throws).
\<close>

definition accepts_all :: "network \<Rightarrow> bool" where
  "accepts_all net = (\<forall>h r. accepted (net h r))"

definition answers_json :: "network \<Rightarrow> string \<Rightarrow> bool" where
  "answers_json net u =
     (\<forall>h r. url r = u \<longrightarrow> (\<exists>st tx j. net h r = Response st tx (Inr j) \<and> j \<noteq> JNull))"

section \<open>Sample inputs\<close>

text \<open>
  Concrete files, networks and callbacks at which the theorems below are instantiated: a
  file of a given name and size; a network that accepts every request with one and the
  same JSON object, one on which every \<^verbatim>\<open>fetch\<close> rejects, one that accepts everything
  but the chunk requests, which it answers with status 503, one that answers a chunk
  request with 503 until the uploader has waited 2000 ms (so that a third attempt is the
  first accepted one), one that accepts everything but the finalize request, which it
  answers with status 500, and one that accepts every request but answers the chunk
  requests with a body that is not JSON; a callback that always returns and one that
  always throws.
\<close>

definition MB :: "nat \<Rightarrow> nat" where
  "MB k = k * 1024 * 1024"

definition mk_file :: "string \<Rightarrow> nat \<Rightarrow> File" where
  "mk_file nm bytes = \<lparr>name = nm, size_f = bytes, type_f = ''application/pdf''\<rparr>"

definition ok_json :: json where
  "ok_json = JObj [(''uploadId'', JStr ''u1''), (''url'', JStr ''https://files/u1''),
                  (''artifact_ids'', JArr [JStr ''a1''])]"

definition net_ok :: network where
  "net_ok h r = Response 200 ''{}'' (Inr ok_json)"

definition net_down :: network where
  "net_down h r = NetworkFailure ''Failed to fetch''"



definition net_finalize_down :: network where
  "net_finalize_down h r =
     (if url r = ''/api/upload/finalize'' then Response 500 ''error'' (Inl ''Unexpected token'')
      else Response 200 ''{}'' (Inr ok_json))"

definition net_plain_chunks :: network where
  "net_plain_chunks h r =
     (if url r = ''/api/upload/chunk'' then Response 200 ''stored'' (Inl ''Unexpected token'')
      else Response 200 ''{}'' (Inr ok_json))"

definition quiet :: progress_callback where
  "quiet h p = Returns"

definition throwing :: progress_callback where
  "throwing h p = Throws ''callback failed''"

definition quiet_files :: file_callback where
  "quiet_files h nm pct = Returns"

text \<open>
  Backends for the proxy: two for the statuses that \<^verbatim>\<open>NextResponse.json\<close> refuses (one
  answers \<^verbatim>\<open>304 Not Modified\<close>, which allows no body, the other a status above 599), one
  that answers 413 with a text body, and one that answers 200 with a JSON body.
\<close>

definition backend_not_modified :: "backend_request \<Rightarrow> response" where
  "backend_not_modified r = Response 304 '''' (Inl ''Unexpected end of JSON input'')"

definition backend_out_of_range :: "backend_request \<Rightarrow> response" where
  "backend_out_of_range r = Response 999 ''blocked'' (Inl ''Unexpected token'')"

definition backend_too_large :: "backend_request \<Rightarrow> response" where
  "backend_too_large r = Response 413 ''too large'' (Inl ''Unexpected token'')"

definition backend_stored :: "backend_request \<Rightarrow> response" where
  "backend_stored r = Response 200 ''{}'' (Inr (JObj [(''artifact_ids'', JArr [JStr ''a1''])]))"

section \<open>Evaluation rules and basic facts\<close>

lemmas double_eval = size_MB_def toFixed2_def js_mul_def js_div_def to_double_def round_at_def
  binade_def halvings.simps doublings.simps round_half_even_def pow2_def Let_def
  Math_round_def Math_ceil_def show_nat.simps digit_char_def dquote_def

lemmas fixture_eval = MB_def mk_file_def net_ok_def net_down_def ok_json_def

lemma foldl_size_acc: "foldl (\<lambda>sum f. sum + size_f f) a fs = a + sum_list (map size_f fs)"
  by (induction fs arbitrary: a) simp_all

lemma total_size_sum_list: "total_size files = sum_list (map size_f files)"
  by (simp add: total_size_def foldl_size_acc)

lemma total_size_Nil: "total_size [] = 0"
  by (simp add: total_size_sum_list)

lemma check_file_sizes_find:
  "check_file_sizes files = map_option file_too_large (find (\<lambda>f. MAX_FILE_SIZE < size_f f) files)"
  by (induction files) simp_all

lemma size_MB_600: "size_MB 629145600 = ''600.00''"
  by (simp add: double_eval)

section \<open>Rounding to a double\<close>

text \<open>
  The binade of a positive real brackets it between two powers of two; rounding is
  monotone, exact on the integers below \<open>2^53\<close>, and off by at most the fraction
  \<open>2^-53\<close> of its argument.
\<close>

lemma pow2_pos: "0 < pow2 e"
  by (simp add: pow2_def)

lemma pow2_powi: "pow2 e = 2 powi e"
  by (simp add: pow2_def power_int_def inverse_eq_divide power_one_over)

lemma pow2_Suc: "pow2 (e + 1) = 2 * pow2 e"
  by (simp add: pow2_powi power_int_add)

lemma pow2_add: "pow2 (a + b) = pow2 a * pow2 b"
  by (simp add: pow2_powi power_int_add)

lemma pow2_mono: "a \<le> b \<Longrightarrow> pow2 a \<le> pow2 b"
  by (simp add: pow2_powi power_int_increasing)

lemma pow2_less_imp: "pow2 a < pow2 b \<Longrightarrow> a < b"
  using pow2_mono [of b a] by (cases "a < b") auto

lemma pow2_nat: "pow2 (int k) = 2 ^ k"
  by (simp add: pow2_def)

lemma pow2_numeral: "pow2 (numeral k) = 2 ^ numeral k"
  using pow2_nat [of "numeral k"] by simp

lemma pow2_split: "pow2 b = pow2 a * pow2 (b - a)"
  using pow2_add [of a "b - a"] by simp

lemma halvings_bounds: "1 \<le> x \<Longrightarrow> 2 ^ halvings x \<le> x \<and> x < 2 * 2 ^ halvings x"
proof (induction x rule: halvings.induct)
  case (1 x)
  show ?case
  proof (cases "x < 2")
    case True
    with "1.prems" show ?thesis by (simp add: halvings.simps)
  next
    case False
    then have "1 \<le> x / 2" by simp
    with "1.IH" [OF False] have "2 ^ halvings (x / 2) \<le> x / 2 \<and> x / 2 < 2 * 2 ^ halvings (x / 2)"
      by simp
    moreover have "halvings x = Suc (halvings (x / 2))"
      using False by (simp add: halvings.simps)
    ultimately show ?thesis by simp
  qed
qed

lemma doublings_bounds:
  "0 < x \<Longrightarrow> x < 1 \<Longrightarrow> 1 \<le> x * 2 ^ doublings x \<and> x * 2 ^ doublings x < 2"
proof (induction x rule: doublings.induct)
  case (1 x)
  from "1.prems" have step: "doublings x = Suc (doublings (2 * x))"
    by (simp add: doublings.simps)
  from "1.prems" have nc: "\<not> (x \<le> 0 \<or> 1 \<le> x)" by simp
  show ?case
  proof (cases "2 * x < 1")
    case True
    with "1.IH" [OF nc] "1.prems" have "1 \<le> 2 * x * 2 ^ doublings (2 * x) \<and> 2 * x * 2 ^ doublings (2 * x) < 2"
      by simp
    with step show ?thesis by (simp add: mult.assoc mult.left_commute)
  next
    case False
    then have "doublings (2 * x) = 0" by (simp add: doublings.simps)
    with step False "1.prems" show ?thesis by simp
  qed
qed

lemma binade_bounds:
  assumes "0 < x"
  shows "pow2 (binade x) \<le> x \<and> x < 2 * pow2 (binade x)"
proof (cases "1 \<le> x")
  case True
  with halvings_bounds [of x] show ?thesis
    by (simp add: binade_def pow2_nat)
next
  case False
  with assms doublings_bounds [of x]
  have b: "1 \<le> x * 2 ^ doublings x" "x * 2 ^ doublings x < 2" by simp_all
  have p: "pow2 (- int (doublings x)) = 1 / 2 ^ doublings x"
    by (simp add: pow2_def)
  from b have "1 / 2 ^ doublings x \<le> x" "x < 2 * (1 / 2 ^ doublings x)"
    by (simp_all add: field_simps)
  with False p show ?thesis by (simp add: binade_def)
qed

lemma binade_mono:
  assumes "0 < x" "x \<le> y"
  shows "binade x \<le> binade y"
proof -
  from assms have y: "0 < y" by simp
  have "pow2 (binade x) \<le> x" using binade_bounds [OF assms(1)] by simp
  also have "x \<le> y" by fact
  also have "y < 2 * pow2 (binade y)" using binade_bounds [OF y] by simp
  finally have "pow2 (binade x) < pow2 (binade y + 1)" by (simp add: pow2_Suc)
  then have "binade x < binade y + 1" by (rule pow2_less_imp)
  then show ?thesis by simp
qed

lemma round_half_even_floor: "\<lfloor>y\<rfloor> \<le> round_half_even y \<and> round_half_even y \<le> \<lfloor>y\<rfloor> + 1"
  by (simp add: round_half_even_def Let_def)

lemma round_half_even_of_int: "round_half_even (of_int m) = m"
  by (simp add: round_half_even_def Let_def)

lemma round_half_even_error: "\<bar>of_int (round_half_even y) - y\<bar> \<le> 1 / 2"
proof -
  have "of_int \<lfloor>y\<rfloor> \<le> y" "y < of_int \<lfloor>y\<rfloor> + 1" by linarith+
  then show ?thesis
    by (auto simp: round_half_even_def Let_def abs_le_iff)
qed

lemma round_half_even_mono:
  assumes "y \<le> z"
  shows "round_half_even y \<le> round_half_even z"
proof (cases "\<lfloor>y\<rfloor> = \<lfloor>z\<rfloor>")
  case True
  with assms show ?thesis
    by (auto simp: round_half_even_def Let_def)
next
  case False
  with assms have "\<lfloor>y\<rfloor> < \<lfloor>z\<rfloor>" using floor_mono [OF assms] by linarith
  then have "\<lfloor>y\<rfloor> + 1 \<le> \<lfloor>z\<rfloor>" by simp
  with round_half_even_floor [of y] round_half_even_floor [of z] show ?thesis by linarith
qed

lemma round_at_mono: "a \<le> b \<Longrightarrow> round_at e a \<le> round_at e b"
  using pow2_pos [of e]
  by (simp add: round_at_def round_half_even_mono divide_right_mono)

lemma round_at_error: "\<bar>round_at e a - a\<bar> \<le> pow2 e / 2"
proof -
  have "round_at e a - a = (of_int (round_half_even (a / pow2 e)) - a / pow2 e) * pow2 e"
    using pow2_pos [of e] by (simp add: round_at_def field_simps)
  then have "\<bar>round_at e a - a\<bar> = \<bar>of_int (round_half_even (a / pow2 e)) - a / pow2 e\<bar> * pow2 e"
    using pow2_pos [of e] by (simp add: abs_mult)
  also have "\<dots> \<le> (1 / 2) * pow2 e"
    using round_half_even_error [of "a / pow2 e"] pow2_pos [of e]
    by (intro mult_right_mono) simp_all
  finally show ?thesis by simp
qed

lemma round_at_exact: "round_at e (of_int m * pow2 e) = of_int m * pow2 e"
  using pow2_pos [of e] by (simp add: round_at_def round_half_even_of_int)

lemma round_at_binade:
  assumes "0 < x"
  shows "pow2 (binade x) \<le> round_at (binade x - 52) x
       \<and> round_at (binade x - 52) x \<le> pow2 (binade x + 1)"
proof -
  let ?e = "binade x - 52"
  have lo: "pow2 (binade x) = of_int (2 ^ 52) * pow2 ?e"
    using pow2_split [of "binade x" 52] by (simp add: pow2_numeral)
  have hi: "pow2 (binade x + 1) = of_int (2 ^ 53) * pow2 ?e"
    using pow2_split [of "binade x + 1" 53] by (simp add: pow2_numeral)
  from binade_bounds [OF assms] have "pow2 (binade x) \<le> x" "x \<le> pow2 (binade x + 1)"
    by (simp_all add: pow2_Suc)
  then have "round_at ?e (pow2 (binade x)) \<le> round_at ?e x"
    "round_at ?e x \<le> round_at ?e (pow2 (binade x + 1))"
    by (simp_all add: round_at_mono)
  then show ?thesis
    unfolding lo hi round_at_exact by simp
qed

lemma to_double_pos: "0 < x \<Longrightarrow> to_double x = round_at (binade x - 52) x"
  by (simp add: to_double_def)

lemma to_double_zero: "to_double 0 = 0"
  by (simp add: to_double_def)

lemma to_double_mono:
  assumes "0 \<le> x" "x \<le> y"
  shows "to_double x \<le> to_double y"
proof (cases "x = 0")
  case True
  show ?thesis
  proof (cases "y = 0")
    case True
    with \<open>x = 0\<close> show ?thesis by simp
  next
    case False
    with assms have y: "0 < y" by simp
    have "0 < pow2 (binade y)" by (rule pow2_pos)
    with round_at_binade [OF y] have "0 \<le> to_double y" by (simp add: to_double_pos y)
    with \<open>x = 0\<close> show ?thesis by (simp add: to_double_zero)
  qed
next
  case False
  with assms have x: "0 < x" and y: "0 < y" by simp_all
  have le: "binade x \<le> binade y" using binade_mono [OF x assms(2)] .
  show ?thesis
  proof (cases "binade x = binade y")
    case True
    then show ?thesis using assms(2) by (simp add: to_double_pos x y round_at_mono)
  next
    case False
    with le have "binade x + 1 \<le> binade y" by simp
    then have "pow2 (binade x + 1) \<le> pow2 (binade y)" by (rule pow2_mono)
    with round_at_binade [OF x] round_at_binade [OF y]
    show ?thesis by (simp add: to_double_pos x y)
  qed
qed

lemma to_double_error:
  assumes "0 < x"
  shows "\<bar>to_double x - x\<bar> \<le> x / 2 ^ 53"
proof -
  have "\<bar>to_double x - x\<bar> \<le> pow2 (binade x - 52) / 2"
    using round_at_error [of "binade x - 52" x] by (simp add: to_double_pos assms)
  also have "pow2 (binade x - 52) / 2 = pow2 (binade x) / 2 ^ 53"
    using pow2_split [of "binade x" 52] by (simp add: pow2_numeral)
  also have "\<dots> \<le> x / 2 ^ 53"
    using binade_bounds [OF assms] by (simp add: divide_right_mono)
  finally show ?thesis .
qed

lemma to_double_of_nat:
  assumes "n < 2 ^ 53"
  shows "to_double (of_nat n) = of_nat n"
proof (cases "n = 0")
  case True
  then show ?thesis by (simp add: to_double_zero)
next
  case False
  then have x: "0 < (of_nat n :: real)" by simp
  let ?b = "binade (of_nat n)"
  have "pow2 ?b \<le> of_nat n" using binade_bounds [OF x] by simp
  also have "(of_nat n :: real) < 2 ^ 53" using assms
    by (metis of_nat_less_iff of_nat_numeral of_nat_power)
  finally have "pow2 ?b < pow2 53" by (simp add: pow2_numeral)
  then have b: "?b < 53" by (rule pow2_less_imp)
  define k where "k = nat (52 - ?b)"
  define E where "E = ?b - 52"
  have e: "E = - int k" using b by (simp add: k_def E_def)
  have p: "pow2 E = 1 / 2 ^ k" unfolding e by (simp add: pow2_def)
  have eq: "(of_nat n :: real) = of_int (int n * 2 ^ k) * pow2 E"
    unfolding p by simp
  have "round_at E (of_int (int n * 2 ^ k) * pow2 E) = of_int (int n * 2 ^ k) * pow2 E"
    by (rule round_at_exact)
  then have "round_at E (of_nat n) = of_nat n"
    unfolding eq [symmetric] .
  then show ?thesis unfolding to_double_pos [OF x] E_def .
qed

section \<open>Chunk arithmetic\<close>

lemma to_double_nonneg: "0 \<le> x \<Longrightarrow> 0 \<le> to_double x"
  using to_double_mono [of 0 x] by (simp add: to_double_zero)

lemma Math_ceil_js_div:
  assumes n: "n < 2 ^ 53" and b: "0 < b"
  shows "Math_ceil (js_div (of_nat n) (of_nat b)) = \<lceil>real n / real b\<rceil>"
proof -
  define x where "x = real n / real b"
  define z where "z = \<lceil>x\<rceil>"
  have x0: "0 \<le> x" by (simp add: x_def)
  have xn: "x \<le> real n"
  proof -
    have "real n / real b \<le> real n / 1" using b by (intro divide_left_mono) simp_all
    then show ?thesis by (simp add: x_def)
  qed
  have z0: "0 \<le> z" using x0 by (simp add: z_def)
  have zn: "z \<le> int n"
    using ceiling_mono [OF xn] by (simp add: z_def)
  have up: "to_double x \<le> of_int z"
  proof -
    have "nat z < 2 ^ 53" using zn n z0 by linarith
    then have "to_double (of_nat (nat z)) = of_nat (nat z)" by (rule to_double_of_nat)
    then have e: "to_double (of_int z) = of_int z" using z0 by simp
    have "x \<le> of_int z" by (simp add: z_def)
    from to_double_mono [OF x0 this] e show ?thesis by simp
  qed
  have lo: "of_int z - 1 < to_double x"
  proof (cases "n = 0")
    case True
    then show ?thesis by (simp add: x_def z_def to_double_zero)
  next
    case False
    then have xp: "0 < x" using b by (simp add: x_def)
    have "of_int (z - 1) < x" by (simp add: z_def) linarith
    then have "of_int (z - 1) * real b < real n"
      using b by (simp add: x_def pos_less_divide_eq)
    then have "real_of_int ((z - 1) * int b) < real_of_int (int n)" by simp
    then have "(z - 1) * int b < int n" by (simp only: of_int_less_iff)
    then have "(z - 1) * int b + 1 \<le> int n" by simp
    then have "real_of_int ((z - 1) * int b + 1) \<le> real_of_int (int n)"
      by (simp only: of_int_le_iff)
    then have "of_int (z - 1) * real b + 1 \<le> real n" by simp
    then have "(of_int (z - 1) * real b + 1) / real b \<le> real n / real b"
      by (intro divide_right_mono) simp_all
    moreover have "(of_int (z - 1) * real b + 1) / real b = of_int (z - 1) + 1 / real b"
      using b by (simp add: add_divide_distrib)
    ultimately have gap: "of_int (z - 1) + 1 / real b \<le> x"
      by (simp add: x_def)
    have "real n < 2 ^ 53" using n by (metis of_nat_less_iff of_nat_numeral of_nat_power)
    then have "x / 2 ^ 53 < 1 / real b"
      using b by (simp add: x_def field_simps)
    moreover have "x - to_double x \<le> x / 2 ^ 53"
      using to_double_error [OF xp] by linarith
    ultimately have "x - 1 / real b < to_double x" by linarith
    with gap show ?thesis by simp
  qed
  from up lo have "\<lceil>to_double x\<rceil> = z" by (intro ceiling_unique) simp_all
  then show ?thesis by (simp add: Math_ceil_def js_div_def x_def z_def)
qed

lemma CHUNK_SIZE_pos: "0 < CHUNK_SIZE"
  by (simp add: CHUNK_SIZE_def)

lemma total_chunks_ceiling:
  assumes "bytes < 2 ^ 53"
  shows "int (total_chunks bytes) = \<lceil>real bytes / real CHUNK_SIZE\<rceil>"
proof -
  have "(0::real) \<le> real bytes / real CHUNK_SIZE" by simp
  then have "\<lceil>0::real\<rceil> \<le> \<lceil>real bytes / real CHUNK_SIZE\<rceil>" by (rule ceiling_mono)
  then have "0 \<le> \<lceil>real bytes / real CHUNK_SIZE\<rceil>" by simp
  moreover have "total_chunks bytes = nat \<lceil>real bytes / real CHUNK_SIZE\<rceil>"
    using Math_ceil_js_div [OF assms CHUNK_SIZE_pos] by (simp add: total_chunks_def)
  ultimately show ?thesis by simp
qed

lemma total_chunks_bounds:
  assumes "0 < bytes" "bytes < 2 ^ 53"
  shows "0 < total_chunks bytes"
    and "(total_chunks bytes - 1) * CHUNK_SIZE < bytes"
    and "bytes \<le> total_chunks bytes * CHUNK_SIZE"
proof -
  define k where "k = total_chunks bytes"
  define x where "x = real bytes / real CHUNK_SIZE"
  have k: "int k = \<lceil>x\<rceil>" using total_chunks_ceiling [OF assms(2)] by (simp add: k_def x_def)
  have xp: "0 < x" using assms(1) CHUNK_SIZE_pos by (simp add: x_def)
  then have "0 < \<lceil>x\<rceil>" by simp
  with k have kp: "0 < k" by linarith
  have "real_of_int \<lceil>x\<rceil> - 1 < x" by linarith
  with k have "real k - 1 < x" by (metis of_int_of_nat_eq)
  then have "(real k - 1) * real CHUNK_SIZE < real bytes"
    using CHUNK_SIZE_pos by (simp add: x_def pos_less_divide_eq)
  moreover have "real (k - 1) = real k - 1" using kp by (simp add: of_nat_diff)
  ultimately have "real ((k - 1) * CHUNK_SIZE) < real bytes" by simp
  then have lo: "(k - 1) * CHUNK_SIZE < bytes" by (simp only: of_nat_less_iff)
  have "x \<le> real_of_int \<lceil>x\<rceil>" by simp
  with k have "x \<le> real k" by (metis of_int_of_nat_eq)
  then have "real bytes \<le> real k * real CHUNK_SIZE"
    using CHUNK_SIZE_pos by (simp add: x_def pos_divide_le_eq)
  then have "real bytes \<le> real (k * CHUNK_SIZE)" by simp
  then have hi: "bytes \<le> k * CHUNK_SIZE" by (simp only: of_nat_le_iff)
  from kp lo hi show "0 < total_chunks bytes"
    and "(total_chunks bytes - 1) * CHUNK_SIZE < bytes"
    and "bytes \<le> total_chunks bytes * CHUNK_SIZE"
    by (simp_all add: k_def)
qed

lemma chunk_end_inner:
  assumes "0 < bytes" "bytes < 2 ^ 53" "i + 1 < total_chunks bytes"
  shows "chunk_end bytes i = chunk_start (i + 1)"
proof -
  have "(i + 1) * CHUNK_SIZE \<le> (total_chunks bytes - 1) * CHUNK_SIZE"
    using assms(3) by (intro mult_le_mono1) simp
  also note total_chunks_bounds(2) [OF assms(1,2)]
  finally have "(i + 1) * CHUNK_SIZE < bytes" .
  then show ?thesis by (simp add: chunk_end_def chunk_start_def)
qed

lemma chunk_end_last:
  assumes "0 < bytes" "bytes < 2 ^ 53"
  shows "chunk_end bytes (total_chunks bytes - 1) = bytes"
proof -
  have "total_chunks bytes - 1 + 1 = total_chunks bytes"
    using total_chunks_bounds(1) [OF assms] by simp
  then have "(total_chunks bytes - 1) * CHUNK_SIZE + CHUNK_SIZE = total_chunks bytes * CHUNK_SIZE"
    by (metis add_mult_distrib mult_1)
  with total_chunks_bounds(3) [OF assms] show ?thesis
    by (simp add: chunk_end_def chunk_start_def)
qed

lemma chunk_start_less:
  assumes "0 < bytes" "bytes < 2 ^ 53" "i < total_chunks bytes"
  shows "chunk_start i < bytes"
proof -
  have "i * CHUNK_SIZE \<le> (total_chunks bytes - 1) * CHUNK_SIZE"
    using assms(3) by (intro mult_le_mono1) simp
  also note total_chunks_bounds(2) [OF assms(1,2)]
  finally show ?thesis by (simp add: chunk_start_def)
qed

lemma chunk_nonempty:
  assumes "0 < bytes" "bytes < 2 ^ 53" "i < total_chunks bytes"
  shows "chunk_start i < chunk_end bytes i"
  using chunk_start_less [OF assms] CHUNK_SIZE_pos by (simp add: chunk_end_def)

lemma chunk_end_le: "chunk_end bytes i \<le> bytes"
  by (simp add: chunk_end_def)

lemma chunk_end_mono: "i \<le> j \<Longrightarrow> chunk_end bytes i \<le> chunk_end bytes j"
  by (simp add: chunk_end_def chunk_start_def min_le_iff_disj)

lemma chunk_lengths_sum:
  assumes "0 < bytes" "bytes < 2 ^ 53" "j < total_chunks bytes"
  shows "(\<Sum>i \<le> j. chunk_end bytes i - chunk_start i) = chunk_end bytes j"
  using assms(3)
proof (induction j)
  case 0
  show ?case by (simp add: chunk_start_def)
next
  case (Suc j)
  then have "(\<Sum>i \<le> j. chunk_end bytes i - chunk_start i) = chunk_end bytes j" by simp
  moreover have "chunk_end bytes j = chunk_start (Suc j)"
    using chunk_end_inner [OF assms(1,2), of j] Suc.prems by simp
  moreover have "chunk_start (Suc j) \<le> chunk_end bytes (Suc j)"
    using chunk_nonempty [OF assms(1,2) Suc.prems] by simp
  ultimately show ?case by simp
qed

lemma chunk_of_range:
  assumes "0 < size_f f" "size_f f < 2 ^ 53" "i < total_chunks (size_f f)"
  shows "chunk_of f i = PBlob f (i * CHUNK_SIZE) (min (size_f f) ((i + 1) * CHUNK_SIZE))"
proof -
  have "chunk_start i < size_f f" using chunk_start_less [OF assms] .
  then show ?thesis
    by (simp add: chunk_of_def slice_def chunk_end_def chunk_start_def min_def max_def)
qed

lemma Math_round_mono: "x \<le> y \<Longrightarrow> Math_round x \<le> Math_round y"
  by (simp add: Math_round_def floor_mono)

lemma percent_mono:
  assumes "u \<le> v"
  shows "percent u bytes \<le> percent v bytes"
proof -
  have a: "0 \<le> real u / real bytes" "real u / real bytes \<le> real v / real bytes"
    using assms by (simp_all add: divide_right_mono)
  have b: "to_double (real u / real bytes) \<le> to_double (real v / real bytes)"
    using to_double_mono [OF a] .
  have c: "0 \<le> to_double (real u / real bytes)" using a(1) by (rule to_double_nonneg)
  have "to_double (to_double (real u / real bytes) * 100)
          \<le> to_double (to_double (real v / real bytes) * 100)"
    using b c by (intro to_double_mono) simp_all
  then show ?thesis
    by (simp add: percent_def js_mul_def js_div_def Math_round_mono)
qed

lemma percent_full:
  assumes "0 < bytes"
  shows "percent bytes bytes = 100"
proof -
  have 1: "to_double 1 = 1" using to_double_of_nat [of 1] by simp
  have 2: "to_double 100 = 100" using to_double_of_nat [of 100] by simp
  from assms show ?thesis
    by (simp add: percent_def js_mul_def js_div_def 1 2 Math_round_def)
qed

section \<open>Validation in \<^verbatim>\<open>uploadDocuments\<close>\<close>

lemma uploadDocuments_oversize:
  assumes "(\<exists>f \<in> set files. MAX_FILE_SIZE < size_f f) \<or> MAX_TOTAL_SIZE < total_size files"
  shows "uploadDocuments net h (Some files) =
     (Inl (case find (\<lambda>f. MAX_FILE_SIZE < size_f f) files of
             Some f \<Rightarrow> file_too_large f
           | None \<Rightarrow> total_too_large (total_size files)),
      [])"
proof -
  have ne: "files \<noteq> []" using assms by (auto simp: total_size_Nil)
  show ?thesis
  proof (cases "find (\<lambda>f. MAX_FILE_SIZE < size_f f) files")
    case None
    then have "\<not> (\<exists>f \<in> set files. MAX_FILE_SIZE < size_f f)" by (simp add: find_None_iff)
    with assms have "MAX_TOTAL_SIZE < total_size files" by blast
    with None ne show ?thesis
      by (simp add: uploadDocuments_def check_file_sizes_find)
  next
    case (Some f)
    with ne show ?thesis
      by (simp add: uploadDocuments_def check_file_sizes_find)
  qed
qed

text \<open>
  C3, as amended. A batch with a file above 500 MB, or with a total above 500 MB, is
  rejected with no event at all (no request is made). When some file is above the cap, the
  error is the per-file one for the first such file, whatever the total: its message quotes
  that file's name and gives that file's size in MB with two decimals. When no file is
  above the cap and only the total is, the message gives the total in MB and names the
  total, not a file.
\<close>

theorem uploadDocuments_rejects_oversize:
  assumes "(\<exists>f \<in> set files. MAX_FILE_SIZE < size_f f) \<or> MAX_TOTAL_SIZE < total_size files"
  shows "uploadDocuments net h (Some files) =
     (Inl (case find (\<lambda>f. MAX_FILE_SIZE < size_f f) files of
             Some f \<Rightarrow> Error (''File '' @ dquote @ name f @ dquote @ '' is '' @ size_MB (size_f f)
                              @ ''MB. Maximum file size is 500MB.'')
           | None \<Rightarrow> Error (''Total upload size is '' @ size_MB (total_size files)
                   @ ''MB. Maximum total size is 500MB. Please upload fewer files at once.'')),
      [])"
  using uploadDocuments_oversize [OF assms, of net h]
  by (simp add: file_too_large_def total_too_large_def split: option.splits)

theorem uploadDocuments_rejects_oversize_witness:
  "uploadDocuments net_down [] (Some [mk_file ''q.pdf'' (MB 300), mk_file ''k.pdf'' (MB 300)])
     = (Inl (Error ''Total upload size is 600.00MB. Maximum total size is 500MB. Please upload fewer files at once.''), [])
   \<and> uploadDocuments net_down [] (Some [mk_file ''q.pdf'' (MB 300), mk_file ''big.bin'' (MB 600)])
     = (Inl (Error (''File '' @ dquote @ ''big.bin'' @ dquote @ '' is 600.00MB. Maximum file size is 500MB.'')), [])"
proof -
  have a: "(\<exists>f \<in> set [mk_file ''q.pdf'' (MB 300), mk_file ''k.pdf'' (MB 300)]. MAX_FILE_SIZE < size_f f)
      \<or> MAX_TOTAL_SIZE < total_size [mk_file ''q.pdf'' (MB 300), mk_file ''k.pdf'' (MB 300)]"
    by (simp add: fixture_eval MAX_TOTAL_SIZE_def total_size_sum_list)
  have b: "(\<exists>f \<in> set [mk_file ''q.pdf'' (MB 300), mk_file ''big.bin'' (MB 600)]. MAX_FILE_SIZE < size_f f)
      \<or> MAX_TOTAL_SIZE < total_size [mk_file ''q.pdf'' (MB 300), mk_file ''big.bin'' (MB 600)]"
    by (simp add: fixture_eval MAX_FILE_SIZE_def)
  show ?thesis
    using uploadDocuments_rejects_oversize [OF a, of net_down "[]"]
          uploadDocuments_rejects_oversize [OF b, of net_down "[]"] size_MB_600
    by (simp add: fixture_eval MAX_FILE_SIZE_def total_size_sum_list)
qed

text \<open>
  C3 as stated fails: two files of 300 MB are rejected for their total of 600 MB, and the
  message of that error contains the name of neither file.
\<close>

theorem oversize_total_names_no_file:
  "uploadDocuments net_down [] (Some [mk_file ''q.pdf'' (MB 300), mk_file ''k.pdf'' (MB 300)])
     = (Inl (Error ''Total upload size is 600.00MB. Maximum total size is 500MB. Please upload fewer files at once.''), [])
   \<and> \<not> sublist ''q.pdf'' ''Total upload size is 600.00MB. Maximum total size is 500MB. Please upload fewer files at once.''
   \<and> \<not> sublist ''k.pdf'' ''Total upload size is 600.00MB. Maximum total size is 500MB. Please upload fewer files at once.''"
proof -
  have a: "(\<exists>f \<in> set [mk_file ''q.pdf'' (MB 300), mk_file ''k.pdf'' (MB 300)]. MAX_FILE_SIZE < size_f f)
      \<or> MAX_TOTAL_SIZE < total_size [mk_file ''q.pdf'' (MB 300), mk_file ''k.pdf'' (MB 300)]"
    by (simp add: fixture_eval MAX_TOTAL_SIZE_def total_size_sum_list)
  have 2: "uploadDocuments net_down [] (Some [mk_file ''q.pdf'' (MB 300), mk_file ''k.pdf'' (MB 300)])
     = (Inl (Error ''Total upload size is 600.00MB. Maximum total size is 500MB. Please upload fewer files at once.''), [])"
    using uploadDocuments_oversize [OF a, of net_down "[]"] size_MB_600
    by (simp add: fixture_eval MAX_FILE_SIZE_def total_size_sum_list total_too_large_def)
  have q: "CHR ''q'' \<notin> set ''Total upload size is 600.00MB. Maximum total size is 500MB. Please upload fewer files at once.''"
    by simp
  have k: "CHR ''k'' \<notin> set ''Total upload size is 600.00MB. Maximum total size is 500MB. Please upload fewer files at once.''"
    by simp
  have 3: "\<not> sublist ''q.pdf'' ''Total upload size is 600.00MB. Maximum total size is 500MB. Please upload fewer files at once.''"
    using q set_mono_sublist [of "''q.pdf''"] by fastforce
  have 4: "\<not> sublist ''k.pdf'' ''Total upload size is 600.00MB. Maximum total size is 500MB. Please upload fewer files at once.''"
    using k set_mono_sublist [of "''k.pdf''"] by fastforce
  from 2 3 4 show ?thesis by blast
qed

text \<open>
  C10. The empty list is rejected with \<^verbatim>\<open>No files provided for upload\<close> and no event. A
  missing list never reaches that guard: the logging statements before it read
  \<^verbatim>\<open>files.length\<close>, and the engine's \<open>TypeError\<close> is what the caller gets.
\<close>

theorem uploadDocuments_missing_list:
  "uploadDocuments net h None
     = (Inl (TypeError ''Cannot read properties of undefined (reading length)''), [])
   \<and> uploadDocuments net h (Some []) = (Inl (Error ''No files provided for upload''), [])"
  by (simp add: uploadDocuments_def)

section \<open>Routing in \<^verbatim>\<open>uploadDocuments\<close>\<close>

lemma uploadSingles_events:
  "\<exists>k \<le> length fs. snd (uploadSingles net h fs) = map (\<lambda>f. Fetch (single_request f)) (take k fs)"
proof (induction fs arbitrary: h)
  case Nil
  show ?case by simp
next
  case (Cons f fs)
  let ?one = "[Fetch (single_request f)]"
  have one: "map (\<lambda>f. Fetch (single_request f)) (take (Suc 0) (f # fs)) = ?one" by simp
  show ?case
  proof (cases "net h (single_request f)")
    case (NetworkFailure m)
    then have "snd (uploadSingles net h (f # fs)) = ?one" by simp
    with one show ?thesis by (intro exI [of _ "Suc 0"]) simp
  next
    case (Response st tx js)
    show ?thesis
    proof (cases "ok st \<and> \<not> isl js")
      case False
      with Response have "snd (uploadSingles net h (f # fs)) = ?one"
        by (cases js) auto
      with one show ?thesis by (intro exI [of _ "Suc 0"]) simp
    next
      case True
      then obtain result where js: "js = Inr result" by (cases js) auto
      from Cons.IH [of "h @ ?one"] obtain k where k: "k \<le> length fs"
        "snd (uploadSingles net (h @ ?one) fs) = map (\<lambda>f. Fetch (single_request f)) (take k fs)"
        by blast
      obtain r ev where rest: "uploadSingles net (h @ ?one) fs = (r, ev)"
        by (cases "uploadSingles net (h @ ?one) fs")
      with k(2) have ev: "ev = map (\<lambda>f. Fetch (single_request f)) (take k fs)" by simp
      from True Response js rest ev
      have "snd (uploadSingles net h (f # fs))
              = map (\<lambda>f. Fetch (single_request f)) (take (Suc k) (f # fs))"
        by (cases r) simp_all
      with k(1) show ?thesis by (intro exI [of _ "Suc k"]) simp
    qed
  qed
qed

lemma uploadDocumentsChunked_events:
  "snd (uploadDocumentsChunked net h files) = snd (uploadSingles net h files)"
  by (simp add: uploadDocumentsChunked_def split: prod.splits sum.splits)

lemma uploadDocuments_valid:
  assumes "files \<noteq> []" and "\<forall>f \<in> set files. size_f f \<le> MAX_FILE_SIZE"
    and "total_size files \<le> MAX_TOTAL_SIZE"
  shows "uploadDocuments net h (Some files) =
     (if CLOUD_RUN_LIMIT < total_size files then uploadDocumentsChunked net h files
      else (case net h (upload_request files) of
              NetworkFailure m \<Rightarrow> Inl (Rejection m)
            | Response st txt js \<Rightarrow>
                if \<not> ok st
                then Inl (Error (''HTTP error! status: '' @ show_nat st @ '', body: '' @ txt))
                else (case js of Inl m \<Rightarrow> Inl (Rejection m) | Inr result \<Rightarrow> Inr result),
            [Fetch (upload_request files)]))"
proof -
  from assms(2) have "find (\<lambda>f. MAX_FILE_SIZE < size_f f) files = None"
    by (auto simp: find_None_iff)
  with assms(1,3) show ?thesis
    by (simp add: uploadDocuments_def check_file_sizes_find split: response.splits sum.splits)
qed

text \<open>
  C1. A valid batch is one that passes the three checks of \<^verbatim>\<open>uploadDocuments\<close>: it is not
  empty, no file is above 500 MB and the total is at most 500 MB. When its total is above
  30 MB the call is the call of \<^verbatim>\<open>uploadDocumentsChunked\<close> on the same files; its requests
  are posts of single files to \<^verbatim>\<open>/api/upload-single\<close>, for a prefix of the batch, and none
  goes to \<^verbatim>\<open>/api/upload\<close>. When its total is at most 30 MB the call makes exactly one
  request, whatever the network answers: a POST to \<^verbatim>\<open>/api/upload\<close> whose form holds every
  file of the batch, in order, under the field name \<^verbatim>\<open>files\<close>.
\<close>

theorem uploadDocuments_routes_by_total:
  assumes "files \<noteq> []" and "\<forall>f \<in> set files. size_f f \<le> MAX_FILE_SIZE"
    and "total_size files \<le> MAX_TOTAL_SIZE"
  shows "if CLOUD_RUN_LIMIT < total_size files
         then uploadDocuments net h (Some files) = uploadDocumentsChunked net h files
              \<and> (\<exists>k \<le> length files. snd (uploadDocuments net h (Some files))
                     = map (\<lambda>f. Fetch (Request ''/api/upload-single'' ''POST'' []
                                        (Multipart [(''files'', PFile f)]))) (take k files))
              \<and> (\<forall>e \<in> set (snd (uploadDocuments net h (Some files))).
                     \<forall>r. e = Fetch r \<longrightarrow> url r \<noteq> ''/api/upload'')
         else snd (uploadDocuments net h (Some files))
              = [Fetch (Request ''/api/upload'' ''POST'' []
                          (Multipart (map (\<lambda>f. (''files'', PFile f)) files)))]"
proof (cases "CLOUD_RUN_LIMIT < total_size files")
  case True
  have eq: "uploadDocuments net h (Some files) = uploadDocumentsChunked net h files"
    using uploadDocuments_valid [OF assms, of net h] True by simp
  from uploadSingles_events [of files net h] obtain k where k: "k \<le> length files"
    "snd (uploadSingles net h files) = map (\<lambda>f. Fetch (single_request f)) (take k files)"
    by blast
  have ev: "snd (uploadDocuments net h (Some files))
      = map (\<lambda>f. Fetch (Request ''/api/upload-single'' ''POST'' []
                                        (Multipart [(''files'', PFile f)]))) (take k files)"
    using k(2) by (simp add: eq uploadDocumentsChunked_events single_request_def)
  have "\<forall>e \<in> set (snd (uploadDocuments net h (Some files))). \<forall>r. e = Fetch r \<longrightarrow> url r \<noteq> ''/api/upload''"
    unfolding ev by auto
  with True eq ev k(1) show ?thesis by auto
next
  case False
  then show ?thesis
    using uploadDocuments_valid [OF assms, of net h]
    by (simp add: upload_request_def split: response.splits)
qed

theorem uploadDocuments_routes_by_total_witness:
  "uploadDocuments net_ok [] (Some (replicate 5 (mk_file ''a.pdf'' (MB 8))))
     = uploadDocumentsChunked net_ok [] (replicate 5 (mk_file ''a.pdf'' (MB 8)))
   \<and> snd (uploadDocuments net_ok [] (Some [mk_file ''a.pdf'' (MB 10)]))
     = [Fetch (Request ''/api/upload'' ''POST'' []
                 (Multipart [(''files'', PFile (mk_file ''a.pdf'' (MB 10)))]))]"
proof -
  have a: "replicate 5 (mk_file ''a.pdf'' (MB 8)) \<noteq> []"
    "\<forall>f \<in> set (replicate 5 (mk_file ''a.pdf'' (MB 8))). size_f f \<le> MAX_FILE_SIZE"
    "total_size (replicate 5 (mk_file ''a.pdf'' (MB 8))) \<le> MAX_TOTAL_SIZE"
    by (simp_all add: fixture_eval MAX_FILE_SIZE_def MAX_TOTAL_SIZE_def total_size_sum_list
        sum_list_replicate)
  have b: "[mk_file ''a.pdf'' (MB 10)] \<noteq> []"
    "\<forall>f \<in> set [mk_file ''a.pdf'' (MB 10)]. size_f f \<le> MAX_FILE_SIZE"
    "total_size [mk_file ''a.pdf'' (MB 10)] \<le> MAX_TOTAL_SIZE"
    by (simp_all add: fixture_eval MAX_FILE_SIZE_def MAX_TOTAL_SIZE_def total_size_sum_list)
  have c: "CLOUD_RUN_LIMIT < total_size (replicate 5 (mk_file ''a.pdf'' (MB 8)))"
    "\<not> CLOUD_RUN_LIMIT < total_size [mk_file ''a.pdf'' (MB 10)]"
    by (simp_all add: fixture_eval CLOUD_RUN_LIMIT_def total_size_sum_list sum_list_replicate)
  show ?thesis
    using uploadDocuments_routes_by_total [OF a, of net_ok "[]"]
          uploadDocuments_routes_by_total [OF b, of net_ok "[]"] c
    by simp
qed


section \<open>Runs of the chunked uploader\<close>

lemma progress_events_append [simp]:
  "progress_events (xs @ ys) = progress_events xs @ progress_events ys"
  by (induction xs rule: progress_events.induct) simp_all

lemma requests_of_append [simp]:
  "requests_of (xs @ ys) = requests_of xs @ requests_of ys"
  by (induction xs rule: requests_of.induct) simp_all

lemma accepted_chunk_posts_append:
  "accepted_chunk_posts net h (xs @ ys)
     = accepted_chunk_posts net h xs @ accepted_chunk_posts net (h @ xs) ys"
  by (induction net h xs rule: accepted_chunk_posts.induct) simp_all

lemma request_endpoints:
  "url (init_request a b c) = ''/api/upload/init'' \<and> http_method (init_request a b c) = ''POST''"
  "url (chunk_request uid i p) = ''/api/upload/chunk'' \<and> http_method (chunk_request uid i p) = ''POST''"
  "url (finalize_request uid) = ''/api/upload/finalize'' \<and> http_method (finalize_request uid) = ''POST''"
  by (simp_all add: init_request_def chunk_request_def finalize_request_def)

lemma uploadChunk_fst: "(fst (uploadChunk net h uid i c) = Inr ()) = accepted (net h (chunk_request uid i c))"
  by (simp add: uploadChunk_def accepted_def split: response.splits)

lemma uploadChunk_snd: "snd (uploadChunk net h uid i c) = [Fetch (chunk_request uid i c)]"
  by (simp add: uploadChunk_def)

lemma uploadChunk_cases:
  "uploadChunk net h uid i c =
     (if accepted (net h (chunk_request uid i c)) then Inr () else fst (uploadChunk net h uid i c),
      [Fetch (chunk_request uid i c)])"
  by (simp add: uploadChunk_def accepted_def split: response.splits)

text \<open>
  The retry loop of one chunk, entered with no retries, by the outcomes of its at most
  three posts and of the callback after the accepted one.
\<close>

lemma uploadChunk_retry_attempts:
  "uploadChunk_retry net cb h f uid n i 0 =
     (let req = chunk_request uid i (chunk_of f i); p = progress_of f n i;
          h2 = h @ [Fetch req, Delay 1000];
          h3 = h @ [Fetch req, Delay 1000, Fetch req, Delay 2000] in
      if accepted (net h req)
      then (Inr (), [Fetch req, Progress p]
                      @ (if returns (cb (h @ [Fetch req]) p) then [] else [Delay 1000]))
      else if accepted (net h2 req)
      then (Inr (), [Fetch req, Delay 1000, Fetch req, Progress p]
                      @ (if returns (cb (h2 @ [Fetch req]) p) then [] else [Delay 2000]))
      else if accepted (net h3 req)
      then (if returns (cb (h3 @ [Fetch req]) p) then Inr () else Inl (chunk_failure i),
            [Fetch req, Delay 1000, Fetch req, Delay 2000, Fetch req, Progress p])
      else (Inl (chunk_failure i), [Fetch req, Delay 1000, Fetch req, Delay 2000, Fetch req]))"
proof -
  let ?req = "chunk_request uid i (chunk_of f i)"
  let ?p = "progress_of f n i"
  have u: "uploadChunk net h' uid i (chunk_of f i)
             = (if accepted (net h' ?req) then (Inr (), [Fetch ?req])
                else (fst (uploadChunk net h' uid i (chunk_of f i)), [Fetch ?req]))" for h'
    by (simp add: uploadChunk_def accepted_def split: response.splits)
  have nl: "\<not> accepted (net h' ?req) \<Longrightarrow> \<exists>e. fst (uploadChunk net h' uid i (chunk_of f i)) = Inl e" for h'
    by (auto simp: uploadChunk_def accepted_def split: response.splits)
  have r2: "uploadChunk_retry net cb h' f uid n i (Suc (Suc 0)) =
      (if accepted (net h' ?req)
       then (if returns (cb (h' @ [Fetch ?req]) ?p) then Inr () else Inl (chunk_failure i),
             [Fetch ?req, Progress ?p])
       else (Inl (chunk_failure i), [Fetch ?req]))" for h'
    using nl [of h']
    by (subst uploadChunk_retry.simps, subst u)
       (auto simp: MAX_RETRIES_def returns_def split: callback_outcome.splits)
  have r1: "uploadChunk_retry net cb h' f uid n i (Suc 0) =
      (if accepted (net h' ?req)
       then (Inr (), [Fetch ?req, Progress ?p]
                       @ (if returns (cb (h' @ [Fetch ?req]) ?p) then [] else [Delay 2000]))
       else case uploadChunk_retry net cb (h' @ [Fetch ?req, Delay 2000]) f uid n i (Suc (Suc 0)) of
              (r, ev') \<Rightarrow> (r, [Fetch ?req, Delay 2000] @ ev'))" for h'
    using nl [of h']
    by (subst uploadChunk_retry.simps, subst u)
       (auto simp: MAX_RETRIES_def returns_def split: prod.splits callback_outcome.splits)
  have r0: "uploadChunk_retry net cb h f uid n i 0 =
      (if accepted (net h ?req)
       then (Inr (), [Fetch ?req, Progress ?p]
                       @ (if returns (cb (h @ [Fetch ?req]) ?p) then [] else [Delay 1000]))
       else case uploadChunk_retry net cb (h @ [Fetch ?req, Delay 1000]) f uid n i (Suc 0) of
              (r, ev') \<Rightarrow> (r, [Fetch ?req, Delay 1000] @ ev'))"
    using nl [of h]
    by (subst uploadChunk_retry.simps, subst u)
       (auto simp: MAX_RETRIES_def returns_def split: prod.splits callback_outcome.splits)
  show ?thesis
    unfolding r0 r1 r2 by (simp add: Let_def)
qed

lemma uploadChunk_retry_fst:
  "fst (uploadChunk_retry net cb h f uid n i 0) = Inr ()
   \<or> fst (uploadChunk_retry net cb h f uid n i 0) = Inl (chunk_failure i)"
  by (simp add: uploadChunk_retry_attempts Let_def)

text \<open>
  What one retry loop leaves in the trace: between one and three posts of the same
  request, of which at most one was accepted, and a progress record exactly when one was
  accepted. A loop that ends without throwing had an accepted post.
\<close>

lemma uploadChunk_retry_summary:
  "\<exists>k a. 1 \<le> k \<and> k \<le> 3 \<and> a \<le> 1
     \<and> requests_of (snd (uploadChunk_retry net cb h f uid n i 0))
         = replicate k (chunk_request uid i (chunk_of f i))
     \<and> accepted_chunk_posts net h (snd (uploadChunk_retry net cb h f uid n i 0))
         = replicate a (chunk_request uid i (chunk_of f i))
     \<and> progress_events (snd (uploadChunk_retry net cb h f uid n i 0))
         = replicate a (progress_of f n i)
     \<and> (fst (uploadChunk_retry net cb h f uid n i 0) = Inr () \<longrightarrow> a = 1)"
proof -
  let ?req = "chunk_request uid i (chunk_of f i)"
  let ?h2 = "h @ [Fetch ?req, Delay 1000]"
  let ?h3 = "h @ [Fetch ?req, Delay 1000, Fetch ?req, Delay 2000]"
  have u: "url ?req = ''/api/upload/chunk''" by (simp add: request_endpoints)
  consider (a1) "accepted (net h ?req)"
    | (a2) "\<not> accepted (net h ?req)" "accepted (net ?h2 ?req)"
    | (a3) "\<not> accepted (net h ?req)" "\<not> accepted (net ?h2 ?req)" "accepted (net ?h3 ?req)"
    | (no) "\<not> accepted (net h ?req)" "\<not> accepted (net ?h2 ?req)" "\<not> accepted (net ?h3 ?req)"
    by blast
  then show ?thesis
  proof cases
    case a1
    then show ?thesis
      by (intro exI [of _ 1]) (simp add: uploadChunk_retry_attempts Let_def u)
  next
    case a2
    then show ?thesis
      by (intro exI [of _ 2] exI [of _ 1])
         (simp add: uploadChunk_retry_attempts Let_def u numeral_2_eq_2)
  next
    case a3
    then show ?thesis
      by (intro exI [of _ 3] exI [of _ 1])
         (simp add: uploadChunk_retry_attempts Let_def u numeral_3_eq_3)
  next
    case no
    then show ?thesis
      by (intro exI [of _ 3] exI [of _ 0])
         (simp add: uploadChunk_retry_attempts Let_def u numeral_3_eq_3)
  qed
qed

lemma uploadChunk_retry_requests:
  "set (requests_of (snd (uploadChunk_retry net cb h f uid n i 0))) = {chunk_request uid i (chunk_of f i)}
   \<and> length (requests_of (snd (uploadChunk_retry net cb h f uid n i 0))) \<le> MAX_RETRIES"
  by (simp add: uploadChunk_retry_attempts Let_def MAX_RETRIES_def)

lemma uploadChunks_step:
  "i < n \<Longrightarrow> uploadChunks net cb h f uid n i =
     (case uploadChunk_retry net cb h f uid n i 0 of
        (Inl err, ev) \<Rightarrow> (Inl err, ev)
      | (Inr u, ev) \<Rightarrow>
          (case uploadChunks net cb (h @ ev) f uid n (i + 1) of (r, ev') \<Rightarrow> (r, ev @ ev')))"
  by (subst uploadChunks.simps) simp

lemma uploadChunks_done: "\<not> i < n \<Longrightarrow> uploadChunks net cb h f uid n i = (Inr (), [])"
  by (subst uploadChunks.simps) simp


text \<open>
  The loop from chunk \<open>i\<close> on: the chunks \<open>i, ..., i + k - 1\<close> had an accepted post each, in
  this order, and these are all the accepted posts and all the progress records; a loop
  that ends without throwing went through every chunk.
\<close>

lemma uploadChunks_progress:
  "i \<le> n \<Longrightarrow> \<exists>k. i + k \<le> n
      \<and> progress_events (snd (uploadChunks net cb h f uid n i)) = map (progress_of f n) [i ..< i + k]
      \<and> accepted_chunk_posts net h (snd (uploadChunks net cb h f uid n i))
          = map (\<lambda>j. chunk_request uid j (chunk_of f j)) [i ..< i + k]
      \<and> (fst (uploadChunks net cb h f uid n i) = Inr () \<longrightarrow> i + k = n)"
proof (induction net cb h f uid n i rule: uploadChunks.induct)
  case (1 net cb h f uid n i)
  show ?case
  proof (cases "i < n")
    case False
    with "1.prems" have "i = n" by simp
    with False show ?thesis by (intro exI [of _ 0]) (simp add: uploadChunks_done)
  next
    case True
    obtain r ev where retry: "uploadChunk_retry net cb h f uid n i 0 = (r, ev)"
      by (cases "uploadChunk_retry net cb h f uid n i 0")
    from uploadChunk_retry_summary [of net cb h f uid n i] retry
    obtain a where a: "a \<le> 1"
      "accepted_chunk_posts net h ev = replicate a (chunk_request uid i (chunk_of f i))"
      "progress_events ev = replicate a (progress_of f n i)"
      "r = Inr () \<longrightarrow> a = 1"
      by auto
    show ?thesis
    proof (cases r)
      case (Inl e)
      with retry True have eq: "uploadChunks net cb h f uid n i = (Inl e, ev)"
        by (simp add: uploadChunks_step)
      from a(1) have "a = 0 \<or> a = 1" by auto
      then show ?thesis
      proof
        assume "a = 0"
        with a eq True show ?thesis by (intro exI [of _ 0]) simp
      next
        assume "a = 1"
        with a eq True show ?thesis by (intro exI [of _ 1]) simp
      qed
    next
      case (Inr u)
      with a have a1: "a = 1" by simp
      from True have "i + 1 \<le> n" by simp
      from "1.IH" [OF True retry [symmetric] Inr this]
      obtain k where k: "i + 1 + k \<le> n"
        "progress_events (snd (uploadChunks net cb (h @ ev) f uid n (i + 1)))
           = map (progress_of f n) [i + 1 ..< i + 1 + k]"
        "accepted_chunk_posts net (h @ ev) (snd (uploadChunks net cb (h @ ev) f uid n (i + 1)))
           = map (\<lambda>j. chunk_request uid j (chunk_of f j)) [i + 1 ..< i + 1 + k]"
        "fst (uploadChunks net cb (h @ ev) f uid n (i + 1)) = Inr () \<longrightarrow> i + 1 + k = n"
        by blast
      obtain r' ev' where rest: "uploadChunks net cb (h @ ev) f uid n (i + 1) = (r', ev')"
        by (cases "uploadChunks net cb (h @ ev) f uid n (i + 1)")
      from retry Inr True rest have eq: "uploadChunks net cb h f uid n i = (r', ev @ ev')"
        by (simp add: uploadChunks_step)
      have "[i ..< i + (k + 1)] = i # [i + 1 ..< i + 1 + k]"
        by (simp add: upt_rec)
      with k rest eq a a1 show ?thesis
        by (intro exI [of _ "k + 1"]) (simp add: accepted_chunk_posts_append)
    qed
  qed
qed

text \<open>
  The requests of the loop from chunk \<open>i\<close> on: for the chunks \<open>i, i + 1, ...\<close> in this
  order, between one and three posts of the chunk's request; a loop that ends without
  throwing posted every chunk up to the last.
\<close>

lemma uploadChunks_request_runs:
  "i \<le> n \<Longrightarrow> \<exists>ks. i + length ks \<le> n \<and> (\<forall>k \<in> set ks. 1 \<le> k \<and> k \<le> 3)
      \<and> requests_of (snd (uploadChunks net cb h f uid n i))
          = concat (map (\<lambda>(j, k). replicate k (chunk_request uid j (chunk_of f j)))
                        (zip [i ..< i + length ks] ks))
      \<and> (fst (uploadChunks net cb h f uid n i) = Inr () \<longrightarrow> i + length ks = n)"
proof (induction net cb h f uid n i rule: uploadChunks.induct)
  case (1 net cb h f uid n i)
  show ?case
  proof (cases "i < n")
    case False
    with "1.prems" have "i = n" by simp
    with False show ?thesis by (intro exI [of _ "[]"]) (simp add: uploadChunks_done)
  next
    case True
    obtain r ev where retry: "uploadChunk_retry net cb h f uid n i 0 = (r, ev)"
      by (cases "uploadChunk_retry net cb h f uid n i 0")
    from uploadChunk_retry_summary [of net cb h f uid n i] retry
    obtain k where k: "1 \<le> k" "k \<le> 3"
      "requests_of ev = replicate k (chunk_request uid i (chunk_of f i))"
      by auto
    show ?thesis
    proof (cases r)
      case (Inl e)
      with retry True have eq: "uploadChunks net cb h f uid n i = (Inl e, ev)"
        by (simp add: uploadChunks_step)
      with k True show ?thesis by (intro exI [of _ "[k]"]) simp
    next
      case (Inr u)
      from True have "i + 1 \<le> n" by simp
      from "1.IH" [OF True retry [symmetric] Inr this]
      obtain ks where ks: "i + 1 + length ks \<le> n" "\<forall>k \<in> set ks. 1 \<le> k \<and> k \<le> 3"
        "requests_of (snd (uploadChunks net cb (h @ ev) f uid n (i + 1)))
           = concat (map (\<lambda>(j, k). replicate k (chunk_request uid j (chunk_of f j)))
                         (zip [i + 1 ..< i + 1 + length ks] ks))"
        "fst (uploadChunks net cb (h @ ev) f uid n (i + 1)) = Inr () \<longrightarrow> i + 1 + length ks = n"
        by blast
      obtain r' ev' where rest: "uploadChunks net cb (h @ ev) f uid n (i + 1) = (r', ev')"
        by (cases "uploadChunks net cb (h @ ev) f uid n (i + 1)")
      from retry Inr True rest have eq: "uploadChunks net cb h f uid n i = (r', ev @ ev')"
        by (simp add: uploadChunks_step)
      have "[i ..< i + length (k # ks)] = i # [i + 1 ..< i + 1 + length ks]"
        by (simp add: upt_rec)
      with k ks rest eq show ?thesis
        by (intro exI [of _ "k # ks"]) simp
    qed
  qed
qed

lemma uploadChunks_requests:
  "r \<in> set (requests_of (snd (uploadChunks net cb h f uid n i)))
     \<Longrightarrow> \<exists>j. i \<le> j \<and> j < n \<and> r = chunk_request uid j (chunk_of f j)"
proof (induction net cb h f uid n i rule: uploadChunks.induct)
  case (1 net cb h f uid n i)
  show ?case
  proof (cases "i < n")
    case False
    with "1.prems" show ?thesis by (simp add: uploadChunks_done)
  next
    case True
    obtain x ev where retry: "uploadChunk_retry net cb h f uid n i 0 = (x, ev)"
      by (cases "uploadChunk_retry net cb h f uid n i 0")
    have here: "set (requests_of ev) = {chunk_request uid i (chunk_of f i)}"
      using uploadChunk_retry_requests [of net cb h f uid n i] retry by simp
    show ?thesis
    proof (cases x)
      case (Inl e)
      with retry True have "uploadChunks net cb h f uid n i = (Inl e, ev)"
        by (simp add: uploadChunks_step)
      with "1.prems" here True show ?thesis by auto
    next
      case (Inr u)
      obtain r' ev' where rest: "uploadChunks net cb (h @ ev) f uid n (i + 1) = (r', ev')"
        by (cases "uploadChunks net cb (h @ ev) f uid n (i + 1)")
      from retry Inr True rest have eq: "uploadChunks net cb h f uid n i = (r', ev @ ev')"
        by (simp add: uploadChunks_step)
      with "1.prems" have "r \<in> set (requests_of ev) \<or> r \<in> set (requests_of ev')" by simp
      then show ?thesis
      proof
        assume "r \<in> set (requests_of ev)"
        with here True show ?thesis by auto
      next
        assume "r \<in> set (requests_of ev')"
        with rest have "r \<in> set (requests_of (snd (uploadChunks net cb (h @ ev) f uid n (i + 1))))"
          by simp
        from "1.IH" [OF True retry [symmetric] Inr this]
        show ?thesis by (metis add_leD1)
      qed
    qed
  qed
qed

lemma uploadChunks_failure:
  "fst (uploadChunks net cb h f uid n i) = Inl e \<Longrightarrow> \<exists>j. i \<le> j \<and> j < n \<and> e = chunk_failure j"
proof (induction net cb h f uid n i rule: uploadChunks.induct)
  case (1 net cb h f uid n i)
  show ?case
  proof (cases "i < n")
    case False
    with "1.prems" show ?thesis by (simp add: uploadChunks_done)
  next
    case True
    obtain x ev where retry: "uploadChunk_retry net cb h f uid n i 0 = (x, ev)"
      by (cases "uploadChunk_retry net cb h f uid n i 0")
    show ?thesis
    proof (cases x)
      case (Inl e')
      with retry True have "uploadChunks net cb h f uid n i = (Inl e', ev)"
        by (simp add: uploadChunks_step)
      with "1.prems" have "e' = e" by simp
      moreover from retry Inl uploadChunk_retry_fst [of net cb h f uid n i]
      have "e' = chunk_failure i" by simp
      ultimately show ?thesis using True by auto
    next
      case (Inr u)
      obtain r' ev' where rest: "uploadChunks net cb (h @ ev) f uid n (i + 1) = (r', ev')"
        by (cases "uploadChunks net cb (h @ ev) f uid n (i + 1)")
      from retry Inr True rest have eq: "uploadChunks net cb h f uid n i = (r', ev @ ev')"
        by (simp add: uploadChunks_step)
      with "1.prems" rest have "fst (uploadChunks net cb (h @ ev) f uid n (i + 1)) = Inl e" by simp
      from "1.IH" [OF True retry [symmetric] Inr this]
      show ?thesis by (metis add_leD1)
    qed
  qed
qed

text \<open>On a network that accepts every chunk the loop posts each chunk once and ends
  without throwing, whatever the callback does.\<close>

lemma uploadChunks_all_accepted:
  assumes "\<And>h' j. accepted (net h' (chunk_request uid j (chunk_of f j)))"
  shows "fst (uploadChunks net cb h f uid n i) = Inr ()
     \<and> requests_of (snd (uploadChunks net cb h f uid n i))
         = map (\<lambda>j. chunk_request uid j (chunk_of f j)) [i ..< n]"
  using assms
proof (induction net cb h f uid n i rule: uploadChunks.induct)
  case (1 net cb h f uid n i)
  show ?case
  proof (cases "i < n")
    case False
    then show ?thesis by (simp add: uploadChunks_done)
  next
    case True
    obtain ev where retry: "uploadChunk_retry net cb h f uid n i 0 = (Inr (), ev)"
      and req: "requests_of ev = [chunk_request uid i (chunk_of f i)]"
      using "1.prems" by (simp add: uploadChunk_retry_attempts Let_def)
    have rest: "fst (uploadChunks net cb (h @ ev) f uid n (i + 1)) = Inr ()
        \<and> requests_of (snd (uploadChunks net cb (h @ ev) f uid n (i + 1)))
            = map (\<lambda>j. chunk_request uid j (chunk_of f j)) [i + 1 ..< n]"
      using "1.IH" [OF True retry [symmetric] refl "1.prems"] by simp
    obtain ev' where rest': "uploadChunks net cb (h @ ev) f uid n (i + 1) = (Inr (), ev')"
      and req': "requests_of ev' = map (\<lambda>j. chunk_request uid j (chunk_of f j)) [i + 1 ..< n]"
      using rest by (cases "uploadChunks net cb (h @ ev) f uid n (i + 1)") simp
    have "[i ..< n] = i # [i + 1 ..< n]" using True by (simp add: upt_conv_Cons)
    with True retry req rest' req' show ?thesis
      by (simp add: uploadChunks_step)
  qed
qed

lemma initializeUpload_snd:
  "snd (initializeUpload net h a b c) = [Fetch (init_request a b c)]"
  by (simp add: initializeUpload_def)

lemma finalizeUpload_snd:
  "snd (finalizeUpload net h uid) = [Fetch (finalize_request uid)]"
  by (simp add: finalizeUpload_def)

lemma uploadFile_run:
  "uploadFile net cb h f =
     (case fst (initializeUpload net h (name f) (size_f f) (total_chunks (size_f f))) of
        Inl e \<Rightarrow>
          (Inr (failure_result f (message e)),
           [Fetch (init_request (name f) (size_f f) (total_chunks (size_f f)))])
      | Inr uid \<Rightarrow>
          (case uploadChunks net cb
                  (h @ [Fetch (init_request (name f) (size_f f) (total_chunks (size_f f)))])
                  f uid (total_chunks (size_f f)) 0 of
             (Inl e, ev) \<Rightarrow>
               (Inr (failure_result f (message e)),
                Fetch (init_request (name f) (size_f f) (total_chunks (size_f f))) # ev)
           | (Inr u, ev) \<Rightarrow>
               (case fst (finalizeUpload net
                            (h @ Fetch (init_request (name f) (size_f f) (total_chunks (size_f f))) # ev)
                            uid) of
                  Inl e \<Rightarrow>
                    (Inr (failure_result f (message e)),
                     Fetch (init_request (name f) (size_f f) (total_chunks (size_f f))) # ev
                       @ [Fetch (finalize_request uid)])
                | Inr final \<Rightarrow>
                    (Inr \<lparr>success = True, uploadId = uid,
                          ChunkedUploadResult.fileName = name f,
                          finalUrl = Some final, error = None\<rparr>,
                     Fetch (init_request (name f) (size_f f) (total_chunks (size_f f))) # ev
                       @ [Fetch (finalize_request uid)]))))"
proof -
  obtain r0 where i: "initializeUpload net h (name f) (size_f f) (total_chunks (size_f f))
      = (r0, [Fetch (init_request (name f) (size_f f) (total_chunks (size_f f)))])"
    using initializeUpload_snd [of net h "name f" "size_f f" "total_chunks (size_f f)"]
    by (cases "initializeUpload net h (name f) (size_f f) (total_chunks (size_f f))") simp
  have fin: "finalizeUpload net h' uid = (fst (finalizeUpload net h' uid), [Fetch (finalize_request uid)])"
    for h' uid
    using finalizeUpload_snd [of net h' uid] by (cases "finalizeUpload net h' uid") simp
  show ?thesis
    unfolding uploadFile_def uploadFile_try_def i
    by (subst fin) (simp add: failure_result_def split: sum.splits prod.splits)
qed

lemma uploadFile_requests:
  assumes "r \<in> set (requests_of (snd (uploadFile net cb h f)))"
  shows "r = init_request (name f) (size_f f) (total_chunks (size_f f))
       \<or> (\<exists>uid j. j < total_chunks (size_f f) \<and> r = chunk_request uid j (chunk_of f j))
       \<or> (\<exists>uid. r = finalize_request uid)"
proof -
  let ?n = "total_chunks (size_f f)"
  let ?init = "init_request (name f) (size_f f) ?n"
  show ?thesis
  proof (cases "fst (initializeUpload net h (name f) (size_f f) ?n)")
    case (Inl e)
    with assms show ?thesis by (simp add: uploadFile_run)
  next
    case (Inr uid)
    obtain x ev where loop: "uploadChunks net cb (h @ [Fetch ?init]) f uid ?n 0 = (x, ev)"
      by (cases "uploadChunks net cb (h @ [Fetch ?init]) f uid ?n 0")
    from assms Inr loop have "r = ?init \<or> r \<in> set (requests_of ev) \<or> r = finalize_request uid"
      by (auto simp: uploadFile_run split: sum.splits)
    moreover have "r \<in> set (requests_of ev)
        \<Longrightarrow> \<exists>j. j < ?n \<and> r = chunk_request uid j (chunk_of f j)"
      using uploadChunks_requests [of r net cb "h @ [Fetch ?init]" f uid ?n 0] loop by auto
    ultimately show ?thesis by blast
  qed
qed

lemma get_prop_nonnull: "j \<noteq> JNull \<Longrightarrow> \<exists>v. get_prop j k = Inr v"
  by (cases j) simp_all

lemma artifact_ids_of_nonnull: "j \<noteq> JNull \<Longrightarrow> \<exists>ids. artifact_ids_of j = Inr ids"
  by (cases j) (auto simp: artifact_ids_of_def split: option.splits js_value.splits json.splits)

text \<open>
  On a network that accepts every request and answers the init and the finalize request
  with JSON other than \<^verbatim>\<open>null\<close>, a run succeeds with the init request, one post of each
  chunk in index order, and the finalize request, whatever the callback does.
\<close>

lemma uploadFile_all_accepted:
  assumes "accepts_all net" "answers_json net ''/api/upload/init''"
    "answers_json net ''/api/upload/finalize''"
  shows "\<exists>r. fst (uploadFile net cb h f) = Inr r \<and> success r
     \<and> requests_of (snd (uploadFile net cb h f))
        = init_request (name f) (size_f f) (total_chunks (size_f f))
          # map (\<lambda>i. chunk_request (uploadId r) i (chunk_of f i)) [0 ..< total_chunks (size_f f)]
          @ [finalize_request (uploadId r)]"
proof -
  let ?n = "total_chunks (size_f f)"
  let ?init = "init_request (name f) (size_f f) ?n"
  have acc: "accepted (net h' r)" for h' r
    using assms(1) by (simp add: accepts_all_def)
  have js: "url r = ''/api/upload/init'' \<or> url r = ''/api/upload/finalize''
      \<Longrightarrow> \<exists>st tx j. net h' r = Response st tx (Inr j) \<and> ok st \<and> j \<noteq> JNull" for h' r
    using assms(2,3) acc [of h' r] by (fastforce simp: answers_json_def accepted_def)
  obtain uid where i: "fst (initializeUpload net h (name f) (size_f f) ?n) = Inr uid"
    using js [of ?init h] get_prop_nonnull
    by (fastforce simp: initializeUpload_def request_endpoints)
  obtain x ev where loop: "uploadChunks net cb (h @ [Fetch ?init]) f uid ?n 0 = (x, ev)"
    by (cases "uploadChunks net cb (h @ [Fetch ?init]) f uid ?n 0")
  from uploadChunks_all_accepted [of net uid f cb "h @ [Fetch ?init]" ?n 0, OF acc] loop
  have x: "x = Inr ()"
    and rq: "requests_of ev = map (\<lambda>j. chunk_request uid j (chunk_of f j)) [0 ..< ?n]"
    by simp_all
  obtain final where fin: "fst (finalizeUpload net (h @ Fetch ?init # ev) uid) = Inr final"
    using js [of "finalize_request uid" "h @ Fetch ?init # ev"] get_prop_nonnull
    by (fastforce simp: finalizeUpload_def request_endpoints)
  define r where "r = \<lparr>success = True, uploadId = uid,
      ChunkedUploadResult.fileName = name f, finalUrl = Some final, error = None\<rparr>"
  from i loop x fin have run: "uploadFile net cb h f = (Inr r, Fetch ?init # ev @ [Fetch (finalize_request uid)])"
    by (simp add: uploadFile_run r_def)
  have "requests_of (snd (uploadFile net cb h f))
        = ?init # map (\<lambda>i. chunk_request uid i (chunk_of f i)) [0 ..< ?n] @ [finalize_request uid]"
    unfolding run by (simp add: rq)
  with run show ?thesis
    by (intro exI [of _ r]) (simp add: r_def)
qed


subsection \<open>The result of an upload\<close>

lemma total_chunks_12MB: "total_chunks 12582912 = 3"
  by (simp add: total_chunks_def CHUNK_SIZE_def double_eval)


text \<open>
  C9. \<^verbatim>\<open>uploadFile\<close> returns a result on every file and every network, whatever the
  progress callback does; it never throws.
  The result carries the file's name. A success carries the \<^verbatim>\<open>uploadId\<close> that the init
  call returned and the \<^verbatim>\<open>finalUrl\<close> that the finalize call, the last request of the
  run, returned. A failure carries the empty \<^verbatim>\<open>uploadId\<close> and an error message: that of
  the init error when init fails (then init is the only request), that of the chunk that
  exhausted its retries when the loop fails (then the run ends where the loop ended).
  Every request of a run is a POST to the init, the chunk or the finalize endpoint: none
  deletes anything.
\<close>

theorem uploadFile_never_throws:
  "(\<exists>r. fst (uploadFile net cb h f) = Inr r
        \<and> ChunkedUploadResult.fileName r = name f
        \<and> (if success r
            then \<exists>ev final.
                   fst (initializeUpload net h (name f) (size_f f) (total_chunks (size_f f)))
                     = Inr (uploadId r)
                   \<and> snd (uploadFile net cb h f) = ev @ [Fetch (finalize_request (uploadId r))]
                   \<and> fst (finalizeUpload net (h @ ev) (uploadId r)) = Inr final
                   \<and> finalUrl r = Some final \<and> error r = None
            else uploadId r = Json (JStr '''') \<and> finalUrl r = None \<and> (\<exists>m. error r = Some m)))
   \<and> (\<forall>e. fst (initializeUpload net h (name f) (size_f f) (total_chunks (size_f f))) = Inl e
          \<longrightarrow> uploadFile net cb h f =
              (Inr \<lparr>success = False, uploadId = Json (JStr ''''),
                    ChunkedUploadResult.fileName = name f, finalUrl = None,
                    error = Some (message e)\<rparr>,
               [Fetch (init_request (name f) (size_f f) (total_chunks (size_f f)))]))
   \<and> (\<forall>uid e ev.
          fst (initializeUpload net h (name f) (size_f f) (total_chunks (size_f f))) = Inr uid
          \<and> uploadChunks net cb
                (h @ [Fetch (init_request (name f) (size_f f) (total_chunks (size_f f)))])
                f uid (total_chunks (size_f f)) 0 = (Inl e, ev)
          \<longrightarrow> (\<exists>j < total_chunks (size_f f). e = chunk_failure j)
              \<and> uploadFile net cb h f =
                (Inr \<lparr>success = False, uploadId = Json (JStr ''''),
                      ChunkedUploadResult.fileName = name f, finalUrl = None,
                      error = Some (message e)\<rparr>,
                 Fetch (init_request (name f) (size_f f) (total_chunks (size_f f))) # ev))
   \<and> (\<forall>r \<in> set (requests_of (snd (uploadFile net cb h f))).
          http_method r = ''POST''
          \<and> url r \<in> {''/api/upload/init'', ''/api/upload/chunk'', ''/api/upload/finalize''})"
proof -
  let ?n = "total_chunks (size_f f)"
  let ?init = "init_request (name f) (size_f f) ?n"
  have A: "\<exists>r. fst (uploadFile net cb h f) = Inr r
        \<and> ChunkedUploadResult.fileName r = name f
        \<and> (if success r
            then \<exists>ev final.
                   fst (initializeUpload net h (name f) (size_f f) ?n) = Inr (uploadId r)
                   \<and> snd (uploadFile net cb h f) = ev @ [Fetch (finalize_request (uploadId r))]
                   \<and> fst (finalizeUpload net (h @ ev) (uploadId r)) = Inr final
                   \<and> finalUrl r = Some final \<and> error r = None
            else uploadId r = Json (JStr '''') \<and> finalUrl r = None \<and> (\<exists>m. error r = Some m))"
  proof (cases "fst (initializeUpload net h (name f) (size_f f) ?n)")
    case (Inl e)
    then show ?thesis by (simp add: uploadFile_run failure_result_def)
  next
    case (Inr uid)
    obtain x ev where loop: "uploadChunks net cb (h @ [Fetch ?init]) f uid ?n 0 = (x, ev)"
      by (cases "uploadChunks net cb (h @ [Fetch ?init]) f uid ?n 0")
    show ?thesis
    proof (cases x)
      case (Inl e)
      with Inr loop show ?thesis by (simp add: uploadFile_run failure_result_def)
    next
      case u: (Inr u)
      show ?thesis
      proof (cases "fst (finalizeUpload net (h @ Fetch ?init # ev) uid)")
        case (Inl e)
        with Inr loop u show ?thesis by (simp add: uploadFile_run failure_result_def)
      next
        case fin: (Inr final)
        define r where "r = \<lparr>success = True, uploadId = uid,
               ChunkedUploadResult.fileName = name f, finalUrl = Some final, error = None\<rparr>"
        from Inr loop u fin have run:
          "uploadFile net cb h f = (Inr r, (Fetch ?init # ev) @ [Fetch (finalize_request uid)])"
          by (simp add: uploadFile_run r_def)
        have sel: "success r" "uploadId r = uid" "ChunkedUploadResult.fileName r = name f"
          "finalUrl r = Some final" "error r = None"
          by (simp_all add: r_def)
        have "fst (initializeUpload net h (name f) (size_f f) ?n) = Inr (uploadId r)
            \<and> snd (uploadFile net cb h f) = (Fetch ?init # ev) @ [Fetch (finalize_request (uploadId r))]
            \<and> fst (finalizeUpload net (h @ (Fetch ?init # ev)) (uploadId r)) = Inr final
            \<and> finalUrl r = Some final \<and> error r = None"
          using Inr fin run sel by simp
        then have "\<exists>ev final.
                   fst (initializeUpload net h (name f) (size_f f) ?n) = Inr (uploadId r)
                   \<and> snd (uploadFile net cb h f) = ev @ [Fetch (finalize_request (uploadId r))]
                   \<and> fst (finalizeUpload net (h @ ev) (uploadId r)) = Inr final
                   \<and> finalUrl r = Some final \<and> error r = None"
          by blast
        with run sel(1,3) show ?thesis
          by (intro exI [of _ r]) simp
      qed
    qed
  qed
  have B: "\<forall>e. fst (initializeUpload net h (name f) (size_f f) ?n) = Inl e
          \<longrightarrow> uploadFile net cb h f =
              (Inr \<lparr>success = False, uploadId = Json (JStr ''''),
                    ChunkedUploadResult.fileName = name f, finalUrl = None,
                    error = Some (message e)\<rparr>,
               [Fetch ?init])"
    by (simp add: uploadFile_run failure_result_def)
  have C: "\<forall>uid e ev.
          fst (initializeUpload net h (name f) (size_f f) ?n) = Inr uid
          \<and> uploadChunks net cb (h @ [Fetch ?init]) f uid ?n 0 = (Inl e, ev)
          \<longrightarrow> (\<exists>j < ?n. e = chunk_failure j)
              \<and> uploadFile net cb h f =
                (Inr \<lparr>success = False, uploadId = Json (JStr ''''),
                      ChunkedUploadResult.fileName = name f, finalUrl = None,
                      error = Some (message e)\<rparr>,
                 Fetch ?init # ev)"
  proof (intro allI impI)
    fix uid e ev
    assume a: "fst (initializeUpload net h (name f) (size_f f) ?n) = Inr uid
          \<and> uploadChunks net cb (h @ [Fetch ?init]) f uid ?n 0 = (Inl e, ev)"
    then have "fst (uploadChunks net cb (h @ [Fetch ?init]) f uid ?n 0) = Inl e" by simp
    from uploadChunks_failure [OF this] have "\<exists>j < ?n. e = chunk_failure j" by auto
    with a show "(\<exists>j < ?n. e = chunk_failure j)
              \<and> uploadFile net cb h f =
                (Inr \<lparr>success = False, uploadId = Json (JStr ''''),
                      ChunkedUploadResult.fileName = name f, finalUrl = None,
                      error = Some (message e)\<rparr>,
                 Fetch ?init # ev)"
      by (simp add: uploadFile_run failure_result_def)
  qed
  have D: "\<forall>r \<in> set (requests_of (snd (uploadFile net cb h f))).
          http_method r = ''POST''
          \<and> url r \<in> {''/api/upload/init'', ''/api/upload/chunk'', ''/api/upload/finalize''}"
    using uploadFile_requests [of _ net cb h f] request_endpoints by fastforce
  from A B C D show ?thesis by blast
qed

theorem uploadFile_never_throws_witness:
  "uploadFile net_down quiet [] (mk_file ''a.bin'' (MB 12)) =
     (Inr \<lparr>success = False, uploadId = Json (JStr ''''),
           ChunkedUploadResult.fileName = ''a.bin'', finalUrl = None,
           error = Some ''Failed to fetch''\<rparr>,
      [Fetch (Request ''/api/upload/init'' ''POST'' [(''Content-Type'', ''application/json'')]
                (JsonBody [(''fileName'', Json (JStr ''a.bin'')),
                           (''totalBytes'', Json (JNum 12582912)),
                           (''totalChunks'', Json (JNum 3))]))])"
proof -
  let ?f = "mk_file ''a.bin'' (MB 12)"
  have i: "fst (initializeUpload net_down [] (name ?f) (size_f ?f) (total_chunks (size_f ?f)))
             = Inl (Rejection ''Failed to fetch'')"
    by (simp add: initializeUpload_def net_down_def)
  from uploadFile_never_throws [of net_down quiet "[]" ?f]
  have "\<forall>e. fst (initializeUpload net_down [] (name ?f) (size_f ?f) (total_chunks (size_f ?f))) = Inl e
          \<longrightarrow> uploadFile net_down quiet [] ?f =
              (Inr \<lparr>success = False, uploadId = Json (JStr ''''),
                    ChunkedUploadResult.fileName = name ?f, finalUrl = None,
                    error = Some (message e)\<rparr>,
               [Fetch (init_request (name ?f) (size_f ?f) (total_chunks (size_f ?f)))])"
    by blast
  with i have "uploadFile net_down quiet [] ?f =
              (Inr \<lparr>success = False, uploadId = Json (JStr ''''),
                    ChunkedUploadResult.fileName = name ?f, finalUrl = None,
                    error = Some (message (Rejection ''Failed to fetch''))\<rparr>,
               [Fetch (init_request (name ?f) (size_f ?f) (total_chunks (size_f ?f)))])"
    by blast
  then show ?thesis
    by (simp add: mk_file_def MB_def total_chunks_12MB init_request_def json_headers_def)
qed


subsection \<open>The retry loop of a chunk\<close>





subsection \<open>Progress records\<close>

lemma uploadFile_progress:
  "\<exists>k \<le> total_chunks (size_f f).
      progress_events (snd (uploadFile net cb h f))
        = map (progress_of f (total_chunks (size_f f))) [0 ..< k]
      \<and> length (accepted_chunk_posts net h (snd (uploadFile net cb h f))) = k
      \<and> (\<forall>uid. fst (initializeUpload net h (name f) (size_f f) (total_chunks (size_f f))) = Inr uid
            \<longrightarrow> accepted_chunk_posts net h (snd (uploadFile net cb h f))
                  = map (\<lambda>i. chunk_request uid i (chunk_of f i)) [0 ..< k]
                \<and> (fst (uploadChunks net cb
                          (h @ [Fetch (init_request (name f) (size_f f) (total_chunks (size_f f)))])
                          f uid (total_chunks (size_f f)) 0) = Inr ()
                     \<longrightarrow> k = total_chunks (size_f f)))"
proof -
  let ?n = "total_chunks (size_f f)"
  let ?init = "init_request (name f) (size_f f) ?n"
  have ui: "url ?init \<noteq> ''/api/upload/chunk''" by (simp add: request_endpoints)
  have uf: "url (finalize_request uid) \<noteq> ''/api/upload/chunk''" for uid
    by (simp add: request_endpoints)
  show ?thesis
  proof (cases "fst (initializeUpload net h (name f) (size_f f) ?n)")
    case (Inl e)
    then show ?thesis
      by (intro exI [of _ 0]) (simp add: uploadFile_run ui)
  next
    case (Inr uid)
    obtain x ev where loop: "uploadChunks net cb (h @ [Fetch ?init]) f uid ?n 0 = (x, ev)"
      by (cases "uploadChunks net cb (h @ [Fetch ?init]) f uid ?n 0")
    from uploadChunks_progress [of 0 ?n net cb "h @ [Fetch ?init]" f uid] loop
    obtain k where k: "k \<le> ?n" "progress_events ev = map (progress_of f ?n) [0 ..< k]"
      "accepted_chunk_posts net (h @ [Fetch ?init]) ev
         = map (\<lambda>j. chunk_request uid j (chunk_of f j)) [0 ..< k]"
      "x = Inr () \<longrightarrow> k = ?n"
      by auto
    have tr: "snd (uploadFile net cb h f) = Fetch ?init # ev
        \<or> snd (uploadFile net cb h f) = Fetch ?init # ev @ [Fetch (finalize_request uid)]"
      using Inr loop by (simp add: uploadFile_run split: sum.splits)
    have p: "progress_events (snd (uploadFile net cb h f)) = map (progress_of f ?n) [0 ..< k]"
      using tr k(2) by auto
    have a: "accepted_chunk_posts net h (snd (uploadFile net cb h f))
        = map (\<lambda>j. chunk_request uid j (chunk_of f j)) [0 ..< k]"
      using tr k(3) by (auto simp: ui uf accepted_chunk_posts_append)
    from a have l: "length (accepted_chunk_posts net h (snd (uploadFile net cb h f))) = k"
      by simp
    from k(1,4) p a l Inr loop show ?thesis
      by (intro exI [of _ k]) simp
  qed
qed

lemma sorted_percentages: "sorted (map (\<lambda>i. percent (chunk_end bytes i) bytes) [a ..< b])"
proof -
  have "sorted_wrt (\<le>) [a ..< b]" using sorted_upt [of a b] by simp
  then have "sorted_wrt (\<lambda>i j. percent (chunk_end bytes i) bytes \<le> percent (chunk_end bytes j) bytes)
               [a ..< b]"
    by (rule sorted_wrt_mono_rel [rotated]) (simp add: percent_mono chunk_end_mono)
  then show ?thesis by (simp add: sorted_map)
qed

lemma percentage_progress_of:
  "map percentage (map (progress_of f n) xs) = map (\<lambda>i. percent (chunk_end (size_f f) i) (size_f f)) xs"
  by (simp add: progress_of_def)

text \<open>
  C6. In every run of \<^verbatim>\<open>uploadFile\<close>, on every network and with every callback, the
  progress records correspond one to one, in order, to the chunk posts that the network
  accepted: \<open>k\<close> chunk posts were accepted, they are the posts of the chunks
  \<open>0, ..., k - 1\<close> in this order, and the records are those of the chunks \<open>0, ..., k - 1\<close>
  in this order. When the loop over the chunks ends without throwing, \<open>k\<close> is the number
  of chunks. The percentage of a record is \<^verbatim>\<open>Math.round((uploadedBytes / totalBytes) *
  100)\<close>, computed in floating point, with \<^verbatim>\<open>uploadedBytes\<close> the end of the chunk, that is
  the bytes sent so far. The percentages are non-decreasing. When every chunk of a
  non-empty file has been accepted, whether or not the finalize call succeeds afterwards,
  there is a last percentage and it is 100. (An empty file has no chunk and no progress
  record.)
\<close>

theorem progress_percentages:
  "(\<exists>k \<le> total_chunks (size_f f).
       progress_events (snd (uploadFile net cb h f))
         = map (progress_of f (total_chunks (size_f f))) [0 ..< k]
       \<and> length (accepted_chunk_posts net h (snd (uploadFile net cb h f))) = k
       \<and> (\<forall>uid. fst (initializeUpload net h (name f) (size_f f) (total_chunks (size_f f))) = Inr uid
             \<longrightarrow> accepted_chunk_posts net h (snd (uploadFile net cb h f))
                   = map (\<lambda>i. chunk_request uid i (chunk_of f i)) [0 ..< k]
                 \<and> (fst (uploadChunks net cb
                           (h @ [Fetch (init_request (name f) (size_f f) (total_chunks (size_f f)))])
                           f uid (total_chunks (size_f f)) 0) = Inr ()
                      \<longrightarrow> k = total_chunks (size_f f))))
   \<and> (\<forall>i. percentage (progress_of f n i)
            = Math_round (js_mul (js_div (real (uploadedBytes (progress_of f n i)))
                                         (real (totalBytes (progress_of f n i)))) 100)
          \<and> uploadedBytes (progress_of f n i) = min ((i + 1) * CHUNK_SIZE) (size_f f)
          \<and> totalBytes (progress_of f n i) = size_f f
          \<and> chunkIndex (progress_of f n i) = i)
   \<and> sorted (map percentage (progress_events (snd (uploadFile net cb h f))))
   \<and> (0 < size_f f \<and> size_f f < 2 ^ 53
        \<and> length (accepted_chunk_posts net h (snd (uploadFile net cb h f)))
            = total_chunks (size_f f)
        \<longrightarrow> progress_events (snd (uploadFile net cb h f)) \<noteq> []
            \<and> percentage (last (progress_events (snd (uploadFile net cb h f)))) = 100)"
proof -
  let ?n = "total_chunks (size_f f)"
  let ?init = "init_request (name f) (size_f f) ?n"
  let ?ps = "progress_events (snd (uploadFile net cb h f))"
  let ?acc = "accepted_chunk_posts net h (snd (uploadFile net cb h f))"
  from uploadFile_progress [of f net cb h]
  obtain k where k: "k \<le> ?n" "?ps = map (progress_of f ?n) [0 ..< k]" "length ?acc = k"
    "\<forall>uid. fst (initializeUpload net h (name f) (size_f f) ?n) = Inr uid
       \<longrightarrow> ?acc = map (\<lambda>i. chunk_request uid i (chunk_of f i)) [0 ..< k]
           \<and> (fst (uploadChunks net cb (h @ [Fetch ?init]) f uid ?n 0) = Inr () \<longrightarrow> k = ?n)"
    by blast
  have A: "\<exists>k \<le> ?n. ?ps = map (progress_of f ?n) [0 ..< k] \<and> length ?acc = k
       \<and> (\<forall>uid. fst (initializeUpload net h (name f) (size_f f) ?n) = Inr uid
             \<longrightarrow> ?acc = map (\<lambda>i. chunk_request uid i (chunk_of f i)) [0 ..< k]
                 \<and> (fst (uploadChunks net cb (h @ [Fetch ?init]) f uid ?n 0) = Inr ()
                      \<longrightarrow> k = ?n))"
    using k by blast
  have B: "\<forall>i. percentage (progress_of f n i)
            = Math_round (js_mul (js_div (real (uploadedBytes (progress_of f n i)))
                                         (real (totalBytes (progress_of f n i)))) 100)
          \<and> uploadedBytes (progress_of f n i) = min ((i + 1) * CHUNK_SIZE) (size_f f)
          \<and> totalBytes (progress_of f n i) = size_f f
          \<and> chunkIndex (progress_of f n i) = i"
    by (simp add: progress_of_def percent_def chunk_end_def chunk_start_def add.commute)
  have C: "sorted (map percentage ?ps)"
    unfolding k(2) percentage_progress_of by (rule sorted_percentages)
  have D: "0 < size_f f \<and> size_f f < 2 ^ 53 \<and> length ?acc = ?n
        \<longrightarrow> ?ps \<noteq> [] \<and> percentage (last ?ps) = 100"
  proof
    assume a: "0 < size_f f \<and> size_f f < 2 ^ 53 \<and> length ?acc = ?n"
    with k(3) have kn: "k = ?n" by simp
    from a have n0: "0 < ?n" using total_chunks_bounds(1) by blast
    from n0 have ne: "[0 ..< ?n] \<noteq> []" by simp
    from n0 have l: "last [0 ..< ?n] = ?n - 1" by (simp add: last_upt)
    have "last ?ps = progress_of f ?n (?n - 1)"
      unfolding k(2) kn using ne l by (simp add: last_map)
    then have "percentage (last ?ps) = percent (chunk_end (size_f f) (?n - 1)) (size_f f)"
      by (simp add: progress_of_def)
    also have "\<dots> = percent (size_f f) (size_f f)"
      using a chunk_end_last [of "size_f f"] by simp
    also have "\<dots> = 100" using a by (simp add: percent_full)
    finally have "percentage (last ?ps) = 100" .
    moreover have "?ps \<noteq> []" unfolding k(2) kn using ne by simp
    ultimately show "?ps \<noteq> [] \<and> percentage (last ?ps) = 100" by blast
  qed
  from A B C D show ?thesis by blast
qed

theorem progress_percentages_witness:
  "map percentage
     (progress_events (snd (uploadFile net_finalize_down quiet [] (mk_file ''a.bin'' (MB 12)))))
     = [42, 83, 100]
   \<and> sorted (map percentage
       (progress_events (snd (uploadFile net_finalize_down quiet [] (mk_file ''a.bin'' (MB 12))))))
   \<and> percentage (last
       (progress_events (snd (uploadFile net_finalize_down quiet [] (mk_file ''a.bin'' (MB 12))))))
     = 100
   \<and> length (accepted_chunk_posts net_finalize_down []
       (snd (uploadFile net_finalize_down quiet [] (mk_file ''a.bin'' (MB 12))))) = 3
   \<and> fst (uploadFile net_finalize_down quiet [] (mk_file ''a.bin'' (MB 12)))
     = Inr \<lparr>success = False, uploadId = Json (JStr ''''),
            ChunkedUploadResult.fileName = ''a.bin'', finalUrl = None,
            error = Some ''Failed to finalize upload: 500''\<rparr>"
proof -
  let ?f = "mk_file ''a.bin'' (MB 12)"
  let ?uid = "Json (JStr ''u1'')"
  let ?init = "init_request (name ?f) (size_f ?f) (total_chunks (size_f ?f))"
  let ?run = "uploadFile net_finalize_down quiet [] ?f"
  have sz: "size_f ?f = 12582912" "name ?f = ''a.bin''" by (simp_all add: mk_file_def MB_def)
  have i: "fst (initializeUpload net_finalize_down [] (name ?f) (size_f ?f) (total_chunks (size_f ?f)))
             = Inr ?uid"
    by (simp add: initializeUpload_def net_finalize_down_def init_request_def ok_def ok_json_def)
  have acc: "accepted (net_finalize_down h' (chunk_request ?uid j (chunk_of ?f j)))" for h' j
    by (simp add: accepted_def net_finalize_down_def chunk_request_def ok_def)
  have loop: "fst (uploadChunks net_finalize_down quiet ([] @ [Fetch ?init]) ?f ?uid
                     (total_chunks (size_f ?f)) 0) = Inr ()"
    using uploadChunks_all_accepted [of net_finalize_down ?uid ?f, OF acc] by blast
  obtain x ev where l: "uploadChunks net_finalize_down quiet ([] @ [Fetch ?init]) ?f ?uid
                     (total_chunks (size_f ?f)) 0 = (x, ev)"
    by (cases "uploadChunks net_finalize_down quiet ([] @ [Fetch ?init]) ?f ?uid
                     (total_chunks (size_f ?f)) 0")
  with loop have x: "x = Inr ()" by simp
  have fin: "fst (finalizeUpload net_finalize_down h' ?uid)
      = Inl (Error ''Failed to finalize upload: 500'')" for h'
    by (simp add: finalizeUpload_def net_finalize_down_def finalize_request_def ok_def
        show_nat.simps digit_char_def)
  have res: "fst ?run = Inr \<lparr>success = False, uploadId = Json (JStr ''''),
            ChunkedUploadResult.fileName = ''a.bin'', finalUrl = None,
            error = Some ''Failed to finalize upload: 500''\<rparr>"
    using i l x fin by (simp add: uploadFile_run failure_result_def sz)
  note t = progress_percentages [of ?f net_finalize_down quiet "[]" 3]
  from t obtain k where k: "progress_events (snd ?run)
         = map (progress_of ?f (total_chunks (size_f ?f))) [0 ..< k]"
       "length (accepted_chunk_posts net_finalize_down [] (snd ?run)) = k"
       "\<forall>uid. fst (initializeUpload net_finalize_down [] (name ?f) (size_f ?f)
                      (total_chunks (size_f ?f))) = Inr uid
             \<longrightarrow> accepted_chunk_posts net_finalize_down [] (snd ?run)
                   = map (\<lambda>i. chunk_request uid i (chunk_of ?f i)) [0 ..< k]
                 \<and> (fst (uploadChunks net_finalize_down quiet ([] @ [Fetch ?init]) ?f uid
                           (total_chunks (size_f ?f)) 0) = Inr ()
                      \<longrightarrow> k = total_chunks (size_f ?f))"
    by blast
  from k(3) i loop have "k = total_chunks (size_f ?f)" by blast
  then have kn: "k = 3" by (simp add: sz total_chunks_12MB)
  have u: "[0 ..< 3] = [0, 1, 2]" by (simp add: upt_rec)
  have p: "percent 5242880 12582912 = 42" "percent 10485760 12582912 = 83"
    "percent 12582912 12582912 = 100"
    by (simp_all add: percent_def double_eval)
  have 1: "map percentage (progress_events (snd ?run)) = [42, 83, 100]"
    unfolding k(1) kn u
    by (simp add: progress_of_def sz chunk_end_def chunk_start_def CHUNK_SIZE_def p)
  from t have 2: "sorted (map percentage (progress_events (snd ?run)))"
    by blast
  from k(2) kn have 3: "length (accepted_chunk_posts net_finalize_down [] (snd ?run)) = 3"
    by simp
  have "0 < size_f ?f \<and> size_f ?f < 2 ^ 53
      \<and> length (accepted_chunk_posts net_finalize_down [] (snd ?run)) = total_chunks (size_f ?f)"
    using 3 by (simp add: sz total_chunks_12MB)
  with t have 4: "percentage (last (progress_events (snd ?run))) = 100" by blast
  from 1 2 3 4 res show ?thesis by blast
qed


section \<open>The chunks of a file\<close>

text \<open>
  The requests of a run of \<^verbatim>\<open>uploadFile\<close>: the init request; then, for the chunks
  \<open>0, 1, ...\<close> in this order, between one and three posts of the chunk's request; then
  the finalize request, if the loop went through every chunk. A successful run is of the
  second kind.
\<close>

lemma uploadFile_request_runs:
  "\<exists>uid ks tail. length ks \<le> total_chunks (size_f f) \<and> (\<forall>k \<in> set ks. 1 \<le> k \<and> k \<le> 3)
     \<and> requests_of (snd (uploadFile net cb h f))
         = init_request (name f) (size_f f) (total_chunks (size_f f))
           # concat (map (\<lambda>(j, k). replicate k (chunk_request uid j (chunk_of f j)))
                         (zip [0 ..< length ks] ks))
           @ tail
     \<and> (tail = [] \<or> tail = [finalize_request uid] \<and> length ks = total_chunks (size_f f))
     \<and> (\<forall>r. fst (uploadFile net cb h f) = Inr r \<and> success r
           \<longrightarrow> tail = [finalize_request uid] \<and> length ks = total_chunks (size_f f)
               \<and> uploadId r = uid)"
proof -
  let ?n = "total_chunks (size_f f)"
  let ?init = "init_request (name f) (size_f f) ?n"
  show ?thesis
  proof (cases "fst (initializeUpload net h (name f) (size_f f) ?n)")
    case (Inl e)
    then show ?thesis
      by (intro exI [of _ Undefined] exI [of _ "[]"])
         (simp add: uploadFile_run failure_result_def)
  next
    case (Inr uid)
    obtain x ev where loop: "uploadChunks net cb (h @ [Fetch ?init]) f uid ?n 0 = (x, ev)"
      by (cases "uploadChunks net cb (h @ [Fetch ?init]) f uid ?n 0")
    from uploadChunks_request_runs [of 0 ?n net cb "h @ [Fetch ?init]" f uid] loop
    obtain ks where ks: "length ks \<le> ?n" "\<forall>k \<in> set ks. 1 \<le> k \<and> k \<le> 3"
      "requests_of ev = concat (map (\<lambda>(j, k). replicate k (chunk_request uid j (chunk_of f j)))
                                    (zip [0 ..< length ks] ks))"
      "x = Inr () \<longrightarrow> length ks = ?n"
      by auto
    show ?thesis
    proof (cases x)
      case (Inl e)
      with Inr loop ks show ?thesis
        by (intro exI [of _ uid] exI [of _ ks] exI [of _ "[]"])
           (simp add: uploadFile_run failure_result_def)
    next
      case u: (Inr u)
      with ks have kn: "length ks = ?n" by simp
      from Inr loop u ks(1,2,3) kn show ?thesis
        by (intro exI [of _ uid] exI [of _ ks] exI [of _ "[finalize_request uid]"])
           (simp add: uploadFile_run failure_result_def split: sum.splits)
    qed
  qed
qed

text \<open>
  C4. For a file of \<open>totalBytes > 0\<close> (an integer below \<open>2^53\<close>, as every size a Number
  holds exactly): \<^verbatim>\<open>totalChunks\<close> is the ceiling of \<open>totalBytes / CHUNK_SIZE\<close> with
  \<open>CHUNK_SIZE\<close> = 5 MB, although the quotient is computed in floating point; the blob
  sliced for chunk \<open>i\<close> is the non-empty range from \<open>i * CHUNK_SIZE\<close> to the minimum of
  \<open>totalBytes\<close> and \<open>(i + 1) * CHUNK_SIZE\<close>; each range ends where the next begins, the
  first begins at 0 and the last ends at \<open>totalBytes\<close>; two different ranges are
  disjoint; and the lengths add up to \<open>totalBytes\<close>. Every chunk request of every run
  of \<^verbatim>\<open>uploadFile\<close> carries one of these ranges, with its index.

  Every run of \<^verbatim>\<open>uploadFile\<close> on such a file begins with the init request, which carries
  \<open>totalBytes\<close> and this \<open>totalChunks\<close>. Its further requests are, for the indices
  \<open>0, 1, ..., m - 1\<close> in this order (\<open>m \<le> totalChunks\<close>), between one and three posts of
  the range of that index, and after them either nothing or the finalize request, which
  is sent only when \<open>m = totalChunks\<close>. In a run that returns a success every index from
  \<open>0\<close> to \<open>totalChunks - 1\<close> has been sliced and posted, and finalize follows.
\<close>

theorem chunk_ranges_partition:
  assumes "0 < size_f f" and "size_f f < 2 ^ 53"
  shows "int (total_chunks (size_f f)) = \<lceil>real (size_f f) / real CHUNK_SIZE\<rceil>
    \<and> CHUNK_SIZE = 5 * 1024 * 1024
    \<and> (\<forall>i < total_chunks (size_f f).
          chunk_of f i = PBlob f (i * CHUNK_SIZE) (min (size_f f) ((i + 1) * CHUNK_SIZE))
          \<and> i * CHUNK_SIZE < min (size_f f) ((i + 1) * CHUNK_SIZE))
    \<and> (\<forall>i. i + 1 < total_chunks (size_f f)
          \<longrightarrow> min (size_f f) ((i + 1) * CHUNK_SIZE) = (i + 1) * CHUNK_SIZE)
    \<and> min (size_f f) (total_chunks (size_f f) * CHUNK_SIZE) = size_f f
    \<and> (\<forall>i j. i < j \<and> j < total_chunks (size_f f)
          \<longrightarrow> {i * CHUNK_SIZE ..< min (size_f f) ((i + 1) * CHUNK_SIZE)}
              \<inter> {j * CHUNK_SIZE ..< min (size_f f) ((j + 1) * CHUNK_SIZE)} = {})
    \<and> (\<Sum>i < total_chunks (size_f f). min (size_f f) ((i + 1) * CHUNK_SIZE) - i * CHUNK_SIZE)
        = size_f f
    \<and> (\<forall>r \<in> set (requests_of (snd (uploadFile net cb h f))).
          url r = ''/api/upload/chunk'' \<longrightarrow>
            (\<exists>uid i. i < total_chunks (size_f f)
               \<and> r = chunk_request uid i
                     (PBlob f (i * CHUNK_SIZE) (min (size_f f) ((i + 1) * CHUNK_SIZE)))))
    \<and> init_request (name f) (size_f f) (total_chunks (size_f f))
        = Request ''/api/upload/init'' ''POST'' [(''Content-Type'', ''application/json'')]
            (JsonBody [(''fileName'', Json (JStr (name f))),
                       (''totalBytes'', Json (JNum (real (size_f f)))),
                       (''totalChunks'',
                          Json (JNum (of_int \<lceil>real (size_f f) / real CHUNK_SIZE\<rceil>)))])
    \<and> (\<exists>uid ks tail.
          length ks \<le> total_chunks (size_f f) \<and> (\<forall>k \<in> set ks. 1 \<le> k \<and> k \<le> 3)
          \<and> requests_of (snd (uploadFile net cb h f))
              = init_request (name f) (size_f f) (total_chunks (size_f f))
                # concat (map (\<lambda>(i, k). replicate k
                                 (chunk_request uid i
                                    (PBlob f (i * CHUNK_SIZE)
                                       (min (size_f f) ((i + 1) * CHUNK_SIZE)))))
                              (zip [0 ..< length ks] ks))
                @ tail
          \<and> (tail = [] \<or> tail = [finalize_request uid] \<and> length ks = total_chunks (size_f f))
          \<and> (\<forall>r. fst (uploadFile net cb h f) = Inr r \<and> success r
                \<longrightarrow> tail = [finalize_request uid] \<and> length ks = total_chunks (size_f f)
                    \<and> uploadId r = uid))"
proof -
  let ?n = "total_chunks (size_f f)"
  let ?b = "size_f f"
  have e: "chunk_end ?b i = min ?b ((i + 1) * CHUNK_SIZE)" for i
    by (simp add: chunk_end_def chunk_start_def min.commute add.commute)
  have s: "chunk_start i = i * CHUNK_SIZE" for i
    by (simp add: chunk_start_def)
  have n0: "0 < ?n" using total_chunks_bounds(1) [OF assms] .
  have 1: "int ?n = \<lceil>real ?b / real CHUNK_SIZE\<rceil>"
    using total_chunks_ceiling [OF assms(2)] .
  have 2: "CHUNK_SIZE = 5 * 1024 * 1024" by (simp add: CHUNK_SIZE_def)
  have 3: "\<forall>i < ?n. chunk_of f i = PBlob f (i * CHUNK_SIZE) (min ?b ((i + 1) * CHUNK_SIZE))
          \<and> i * CHUNK_SIZE < min ?b ((i + 1) * CHUNK_SIZE)"
    using chunk_of_range [OF assms] chunk_nonempty [OF assms] by (simp add: e s)
  have 4: "\<forall>i. i + 1 < ?n \<longrightarrow> min ?b ((i + 1) * CHUNK_SIZE) = (i + 1) * CHUNK_SIZE"
    using chunk_end_inner [OF assms] by (simp add: e s)
  have 5: "min ?b (?n * CHUNK_SIZE) = ?b"
    using total_chunks_bounds(3) [OF assms] by simp
  have 6: "\<forall>i j. i < j \<and> j < ?n
          \<longrightarrow> {i * CHUNK_SIZE ..< min ?b ((i + 1) * CHUNK_SIZE)}
              \<inter> {j * CHUNK_SIZE ..< min ?b ((j + 1) * CHUNK_SIZE)} = {}"
  proof (intro allI impI)
    fix i j
    assume ij: "i < j \<and> j < ?n"
    then have "(i + 1) * CHUNK_SIZE \<le> j * CHUNK_SIZE" by (intro mult_le_mono1) simp
    then have "min ?b ((i + 1) * CHUNK_SIZE) \<le> j * CHUNK_SIZE" by simp
    then show "{i * CHUNK_SIZE ..< min ?b ((i + 1) * CHUNK_SIZE)}
              \<inter> {j * CHUNK_SIZE ..< min ?b ((j + 1) * CHUNK_SIZE)} = {}"
      by auto
  qed
  have 7: "(\<Sum>i < ?n. min ?b ((i + 1) * CHUNK_SIZE) - i * CHUNK_SIZE) = ?b"
  proof -
    from n0 have lt: "{..< ?n} = {.. ?n - 1}" by auto
    have "(\<Sum>i \<le> ?n - 1. chunk_end ?b i - chunk_start i) = chunk_end ?b (?n - 1)"
      using n0 by (intro chunk_lengths_sum [OF assms]) simp
    also have "\<dots> = ?b" by (rule chunk_end_last [OF assms])
    finally show ?thesis by (simp add: lt e s)
  qed
  have 8: "\<forall>r \<in> set (requests_of (snd (uploadFile net cb h f))).
          url r = ''/api/upload/chunk'' \<longrightarrow>
            (\<exists>uid i. i < ?n
               \<and> r = chunk_request uid i (PBlob f (i * CHUNK_SIZE) (min ?b ((i + 1) * CHUNK_SIZE))))"
  proof (intro ballI impI)
    fix r
    assume r: "r \<in> set (requests_of (snd (uploadFile net cb h f)))" and u: "url r = ''/api/upload/chunk''"
    from uploadFile_requests [OF r] u request_endpoints
    obtain uid j where "j < ?n" "r = chunk_request uid j (chunk_of f j)"
      by auto
    with 3 show "\<exists>uid i. i < ?n
               \<and> r = chunk_request uid i (PBlob f (i * CHUNK_SIZE) (min ?b ((i + 1) * CHUNK_SIZE)))"
      by auto
  qed
  have "real ?n = of_int (int ?n)" by simp
  also have "\<dots> = of_int \<lceil>real ?b / real CHUNK_SIZE\<rceil>" by (simp only: 1)
  finally have rn: "real ?n = of_int \<lceil>real ?b / real CHUNK_SIZE\<rceil>" .
  have 9: "init_request (name f) ?b ?n
        = Request ''/api/upload/init'' ''POST'' [(''Content-Type'', ''application/json'')]
            (JsonBody [(''fileName'', Json (JStr (name f))),
                       (''totalBytes'', Json (JNum (real ?b))),
                       (''totalChunks'', Json (JNum (of_int \<lceil>real ?b / real CHUNK_SIZE\<rceil>)))])"
    by (simp add: init_request_def json_headers_def rn)
  have 10: "\<exists>uid ks tail.
          length ks \<le> ?n \<and> (\<forall>k \<in> set ks. 1 \<le> k \<and> k \<le> 3)
          \<and> requests_of (snd (uploadFile net cb h f))
              = init_request (name f) ?b ?n
                # concat (map (\<lambda>(i, k). replicate k
                                 (chunk_request uid i
                                    (PBlob f (i * CHUNK_SIZE) (min ?b ((i + 1) * CHUNK_SIZE)))))
                              (zip [0 ..< length ks] ks))
                @ tail
          \<and> (tail = [] \<or> tail = [finalize_request uid] \<and> length ks = ?n)
          \<and> (\<forall>r. fst (uploadFile net cb h f) = Inr r \<and> success r
                \<longrightarrow> tail = [finalize_request uid] \<and> length ks = ?n \<and> uploadId r = uid)"
  proof -
    from uploadFile_request_runs [of f net cb h]
    obtain uid ks tail where r: "length ks \<le> ?n" "\<forall>k \<in> set ks. 1 \<le> k \<and> k \<le> 3"
      "requests_of (snd (uploadFile net cb h f))
         = init_request (name f) ?b ?n
           # concat (map (\<lambda>(j, k). replicate k (chunk_request uid j (chunk_of f j)))
                         (zip [0 ..< length ks] ks))
           @ tail"
      "tail = [] \<or> tail = [finalize_request uid] \<and> length ks = ?n"
      "\<forall>r. fst (uploadFile net cb h f) = Inr r \<and> success r
           \<longrightarrow> tail = [finalize_request uid] \<and> length ks = ?n \<and> uploadId r = uid"
      by blast
    have "map (\<lambda>(j, k). replicate k (chunk_request uid j (chunk_of f j)))
              (zip [0 ..< length ks] ks)
        = map (\<lambda>(i, k). replicate k
                 (chunk_request uid i (PBlob f (i * CHUNK_SIZE) (min ?b ((i + 1) * CHUNK_SIZE)))))
              (zip [0 ..< length ks] ks)"
    proof (rule map_cong [OF refl])
      fix x
      assume x: "x \<in> set (zip [0 ..< length ks] ks)"
      obtain j k where jk: "x = (j, k)" by (cases x)
      with x have "j \<in> set [0 ..< length ks]" by (auto dest: set_zip_leftD)
      with r(1) have "j < ?n" by simp
      with 3 have "chunk_of f j = PBlob f (j * CHUNK_SIZE) (min ?b ((j + 1) * CHUNK_SIZE))"
        by blast
      with jk show "(case x of (j, k) \<Rightarrow> replicate k (chunk_request uid j (chunk_of f j)))
          = (case x of (i, k) \<Rightarrow> replicate k
               (chunk_request uid i (PBlob f (i * CHUNK_SIZE) (min ?b ((i + 1) * CHUNK_SIZE)))))"
        by simp
    qed
    with r(3) have "requests_of (snd (uploadFile net cb h f))
              = init_request (name f) ?b ?n
                # concat (map (\<lambda>(i, k). replicate k
                                 (chunk_request uid i
                                    (PBlob f (i * CHUNK_SIZE) (min ?b ((i + 1) * CHUNK_SIZE)))))
                              (zip [0 ..< length ks] ks))
                @ tail"
      by simp
    with r(1,2,4,5) show ?thesis by blast
  qed
  from 1 2 3 4 5 6 7 8 9 10 show ?thesis by blast
qed

lemma total_chunks_12MB_1: "total_chunks 12582913 = 3"
  by (simp add: total_chunks_def CHUNK_SIZE_def double_eval)

lemma uploadFile_12MB_1_requests:
  "requests_of (snd (uploadFile net_ok quiet [] (mk_file ''a.bin'' 12582913)))
     = [init_request ''a.bin'' 12582913 3,
        chunk_request (Json (JStr ''u1'')) 0 (PBlob (mk_file ''a.bin'' 12582913) 0 5242880),
        chunk_request (Json (JStr ''u1'')) 1 (PBlob (mk_file ''a.bin'' 12582913) 5242880 10485760),
        chunk_request (Json (JStr ''u1'')) 2 (PBlob (mk_file ''a.bin'' 12582913) 10485760 12582913),
        finalize_request (Json (JStr ''u1''))]"
proof -
  let ?f = "mk_file ''a.bin'' 12582913"
  let ?uid = "Json (JStr ''u1'')"
  let ?init = "init_request ''a.bin'' 12582913 3"
  have sz: "size_f ?f = 12582913" "name ?f = ''a.bin''" by (simp_all add: mk_file_def)
  have i: "fst (initializeUpload net_ok [] ''a.bin'' 12582913 3) = Inr ?uid"
    by (simp add: initializeUpload_def net_ok_def ok_def ok_json_def)
  have acc: "accepted (net_ok h' r)" for h' r
    by (simp add: accepted_def net_ok_def ok_def)
  have c: "chunk_of ?f 0 = PBlob ?f 0 5242880" "chunk_of ?f (Suc 0) = PBlob ?f 5242880 10485760"
    "chunk_of ?f 2 = PBlob ?f 10485760 12582913"
    by (simp_all add: chunk_of_def slice_def chunk_start_def chunk_end_def CHUNK_SIZE_def sz)
  have u: "[0 ..< 3] = [0, 1, 2]" by (simp add: upt_rec)
  from uploadChunks_all_accepted [of net_ok ?uid ?f quiet "[Fetch ?init]" 3 0, OF acc]
  have l: "fst (uploadChunks net_ok quiet [Fetch ?init] ?f ?uid 3 0) = Inr ()"
    "requests_of (snd (uploadChunks net_ok quiet [Fetch ?init] ?f ?uid 3 0))
       = [chunk_request ?uid 0 (PBlob ?f 0 5242880),
          chunk_request ?uid 1 (PBlob ?f 5242880 10485760),
          chunk_request ?uid 2 (PBlob ?f 10485760 12582913)]"
    by (simp_all add: u c)
  obtain x ev where loop: "uploadChunks net_ok quiet [Fetch ?init] ?f ?uid 3 0 = (x, ev)"
    by (cases "uploadChunks net_ok quiet [Fetch ?init] ?f ?uid 3 0")
  with l have x: "x = Inr ()" and rq: "requests_of ev
       = [chunk_request ?uid 0 (PBlob ?f 0 5242880),
          chunk_request ?uid 1 (PBlob ?f 5242880 10485760),
          chunk_request ?uid 2 (PBlob ?f 10485760 12582913)]"
    by simp_all
  have fin: "fst (finalizeUpload net_ok h' ?uid) = Inr (Json (JStr ''https://files/u1''))" for h'
    by (simp add: finalizeUpload_def net_ok_def ok_def ok_json_def)
  show ?thesis
    using i loop x rq fin by (simp add: uploadFile_run sz total_chunks_12MB_1)
qed

theorem chunk_ranges_partition_witness:
  "total_chunks 12582913 = 3
   \<and> chunk_of (mk_file ''a.bin'' 12582913) 2 = PBlob (mk_file ''a.bin'' 12582913) 10485760 12582913
   \<and> init_request ''a.bin'' 12582913 (total_chunks 12582913)
       = Request ''/api/upload/init'' ''POST'' [(''Content-Type'', ''application/json'')]
           (JsonBody [(''fileName'', Json (JStr ''a.bin'')),
                      (''totalBytes'', Json (JNum 12582913)),
                      (''totalChunks'', Json (JNum 3))])
   \<and> requests_of (snd (uploadFile net_ok quiet [] (mk_file ''a.bin'' 12582913)))
       = [init_request ''a.bin'' 12582913 3,
          chunk_request (Json (JStr ''u1'')) 0 (PBlob (mk_file ''a.bin'' 12582913) 0 5242880),
          chunk_request (Json (JStr ''u1'')) 1
            (PBlob (mk_file ''a.bin'' 12582913) 5242880 10485760),
          chunk_request (Json (JStr ''u1'')) 2
            (PBlob (mk_file ''a.bin'' 12582913) 10485760 12582913),
          finalize_request (Json (JStr ''u1''))]"
proof -
  let ?f = "mk_file ''a.bin'' 12582913"
  have sz: "size_f ?f = 12582913" "name ?f = ''a.bin''" by (simp_all add: mk_file_def)
  have a: "0 < size_f ?f" "size_f ?f < 2 ^ 53" by (simp_all add: sz)
  note t = chunk_ranges_partition [OF a, of net_ok quiet "[]"]
  from t have "int (total_chunks (size_f ?f)) = \<lceil>real (size_f ?f) / real CHUNK_SIZE\<rceil>"
    by blast
  then have n: "total_chunks 12582913 = 3"
    by (simp add: sz CHUNK_SIZE_def)
  from t have "\<forall>i < total_chunks (size_f ?f).
          chunk_of ?f i = PBlob ?f (i * CHUNK_SIZE) (min (size_f ?f) ((i + 1) * CHUNK_SIZE))
          \<and> i * CHUNK_SIZE < min (size_f ?f) ((i + 1) * CHUNK_SIZE)"
    by blast
  then have "2 < total_chunks (size_f ?f) \<longrightarrow>
          chunk_of ?f 2 = PBlob ?f (2 * CHUNK_SIZE) (min (size_f ?f) ((2 + 1) * CHUNK_SIZE))"
    by blast
  with n have c: "chunk_of ?f 2 = PBlob ?f 10485760 12582913"
    by (simp add: sz CHUNK_SIZE_def)
  from t have "init_request (name ?f) (size_f ?f) (total_chunks (size_f ?f))
        = Request ''/api/upload/init'' ''POST'' [(''Content-Type'', ''application/json'')]
            (JsonBody [(''fileName'', Json (JStr (name ?f))),
                       (''totalBytes'', Json (JNum (real (size_f ?f)))),
                       (''totalChunks'',
                          Json (JNum (of_int \<lceil>real (size_f ?f) / real CHUNK_SIZE\<rceil>)))])"
    by blast
  then have i: "init_request ''a.bin'' 12582913 (total_chunks 12582913)
       = Request ''/api/upload/init'' ''POST'' [(''Content-Type'', ''application/json'')]
           (JsonBody [(''fileName'', Json (JStr ''a.bin'')),
                      (''totalBytes'', Json (JNum 12582913)),
                      (''totalChunks'', Json (JNum 3))])"
    by (simp add: sz CHUNK_SIZE_def)
  from n c i uploadFile_12MB_1_requests show ?thesis by blast
qed

section \<open>One file of 120 MB\<close>

lemma uploadSingles_one:
  "snd (uploadSingles net h [f]) = [Fetch (single_request f)]"
  by (simp split: response.splits sum.splits)

lemma uploadDocuments_one_large:
  assumes "CLOUD_RUN_LIMIT < size_f f" "size_f f \<le> MAX_FILE_SIZE"
  shows "uploadDocuments net h (Some [f]) = uploadDocumentsChunked net h [f]"
    and "snd (uploadDocuments net h (Some [f])) = [Fetch (single_request f)]"
proof -
  show 1: "uploadDocuments net h (Some [f]) = uploadDocumentsChunked net h [f]"
    using assms uploadDocuments_valid [of "[f]" net h]
    by (simp add: total_size_sum_list MAX_TOTAL_SIZE_def MAX_FILE_SIZE_def)
  show "snd (uploadDocuments net h (Some [f])) = [Fetch (single_request f)]"
    unfolding 1 uploadDocumentsChunked_events by (rule uploadSingles_one)
qed

lemma uploadDocumentsChunked_one_ok:
  assumes "net h (single_request f) = Response st tx (Inr j)" "ok st" "j \<noteq> JNull"
  shows "\<exists>ids. fst (uploadDocumentsChunked net h [f]) =
      Inr (JObj [(''success'', JBool True), (''artifact_ids'', JArr ids),
                 (''message'', JStr (''Uploaded '' @ show_nat 1
                      @ '' large documents successfully (chunked)'')),
                 (''upload_method'', JStr ''chunked'')])"
proof -
  from artifact_ids_of_nonnull [OF assms(3)] obtain ids where "artifact_ids_of j = Inr ids"
    by blast
  with assms(1,2) show ?thesis
    by (intro exI [of _ ids]) (simp add: uploadDocumentsChunked_def)
qed

lemma total_chunks_120MB: "total_chunks 125829120 = 24"
  by (simp add: total_chunks_def CHUNK_SIZE_def double_eval)

text \<open>
  C7, as amended. One file of 120 MB given to \<^verbatim>\<open>uploadDocuments\<close> is handed to
  \<^verbatim>\<open>uploadDocumentsChunked\<close>, which makes exactly one request on every network: a POST of
  the whole file to \<^verbatim>\<open>/api/upload-single\<close>, with no chunk request and no finalize call.
  When that request is answered with a success status and a JSON body other than
  \<^verbatim>\<open>null\<close>, the returned result carries \<^verbatim>\<open>upload_method\<close> equal to \<^verbatim>\<open>chunked\<close> (on a
  \<^verbatim>\<open>null\<close> body the call throws). The 24 chunks are those of
  \<^verbatim>\<open>ChunkedUploader.uploadFile\<close>: when every request is answered with a success status
  and the init and the finalize response carry a JSON body other than \<^verbatim>\<open>null\<close>, its
  requests for this file are the init call, the 24 chunk posts in index order, each of
  5 MB, and one finalize call, and it returns a success, whatever the chunk responses
  carry and whatever the progress callback does.
\<close>

theorem one_large_file_paths:
  assumes "size_f f = 120 * 1024 * 1024"
  shows "uploadDocuments net h (Some [f]) = uploadDocumentsChunked net h [f]
    \<and> snd (uploadDocuments net h (Some [f]))
        = [Fetch (Request ''/api/upload-single'' ''POST'' [] (Multipart [(''files'', PFile f)]))]
    \<and> (net h (Request ''/api/upload-single'' ''POST'' [] (Multipart [(''files'', PFile f)]))
           = Response st tx (Inr j) \<and> ok st \<and> j \<noteq> JNull
         \<longrightarrow> (\<exists>res. fst (uploadDocuments net h (Some [f])) = Inr res
                \<and> get_prop res ''upload_method'' = Inr (Json (JStr ''chunked''))))
    \<and> (net h (Request ''/api/upload-single'' ''POST'' [] (Multipart [(''files'', PFile f)]))
           = Response st tx (Inr JNull) \<and> ok st
         \<longrightarrow> (\<exists>e. fst (uploadDocuments net h (Some [f])) = Inl e))
    \<and> total_chunks (size_f f) = 24
    \<and> (accepts_all net \<and> answers_json net ''/api/upload/init''
          \<and> answers_json net ''/api/upload/finalize''
         \<longrightarrow> (\<exists>r. fst (uploadFile net cb h f) = Inr r \<and> success r
                \<and> requests_of (snd (uploadFile net cb h f))
                   = init_request (name f) (size_f f) 24
                     # map (\<lambda>i. chunk_request (uploadId r) i
                                  (PBlob f (i * CHUNK_SIZE) ((i + 1) * CHUNK_SIZE))) [0 ..< 24]
                     @ [finalize_request (uploadId r)]))"
proof -
  have sz: "size_f f = 125829120" using assms by simp
  have lim: "CLOUD_RUN_LIMIT < size_f f" "size_f f \<le> MAX_FILE_SIZE"
    by (simp_all add: sz CLOUD_RUN_LIMIT_def MAX_FILE_SIZE_def)
  have n: "total_chunks (size_f f) = 24" by (simp add: sz total_chunks_120MB)
  have A: "uploadDocuments net h (Some [f]) = uploadDocumentsChunked net h [f]"
    by (rule uploadDocuments_one_large(1) [OF lim])
  have B: "snd (uploadDocuments net h (Some [f]))
        = [Fetch (Request ''/api/upload-single'' ''POST'' [] (Multipart [(''files'', PFile f)]))]"
    using uploadDocuments_one_large(2) [OF lim, of net h] by (simp add: single_request_def)
  have C: "net h (Request ''/api/upload-single'' ''POST'' [] (Multipart [(''files'', PFile f)]))
           = Response st tx (Inr j) \<and> ok st \<and> j \<noteq> JNull
         \<longrightarrow> (\<exists>res. fst (uploadDocuments net h (Some [f])) = Inr res
                \<and> get_prop res ''upload_method'' = Inr (Json (JStr ''chunked'')))"
  proof
    assume a: "net h (Request ''/api/upload-single'' ''POST'' [] (Multipart [(''files'', PFile f)]))
           = Response st tx (Inr j) \<and> ok st \<and> j \<noteq> JNull"
    then have b: "net h (single_request f) = Response st tx (Inr j)" "ok st" "j \<noteq> JNull"
      by (simp_all add: single_request_def)
    from uploadDocumentsChunked_one_ok [of net h f st tx j, OF b] obtain ids where
      "fst (uploadDocumentsChunked net h [f]) =
        Inr (JObj [(''success'', JBool True), (''artifact_ids'', JArr ids),
                 (''message'', JStr (''Uploaded '' @ show_nat 1
                      @ '' large documents successfully (chunked)'')),
                 (''upload_method'', JStr ''chunked'')])"
      by blast
    then show "\<exists>res. fst (uploadDocuments net h (Some [f])) = Inr res
                \<and> get_prop res ''upload_method'' = Inr (Json (JStr ''chunked''))"
      unfolding A by simp
  qed
  have C': "net h (Request ''/api/upload-single'' ''POST'' [] (Multipart [(''files'', PFile f)]))
           = Response st tx (Inr JNull) \<and> ok st
         \<longrightarrow> (\<exists>e. fst (uploadDocuments net h (Some [f])) = Inl e)"
    unfolding A by (simp add: uploadDocumentsChunked_def single_request_def artifact_ids_of_def)
  have D: "accepts_all net \<and> answers_json net ''/api/upload/init''
          \<and> answers_json net ''/api/upload/finalize''
         \<longrightarrow> (\<exists>r. fst (uploadFile net cb h f) = Inr r \<and> success r
                \<and> requests_of (snd (uploadFile net cb h f))
                   = init_request (name f) (size_f f) 24
                     # map (\<lambda>i. chunk_request (uploadId r) i
                                  (PBlob f (i * CHUNK_SIZE) ((i + 1) * CHUNK_SIZE))) [0 ..< 24]
                     @ [finalize_request (uploadId r)])"
  proof
    assume a: "accepts_all net \<and> answers_json net ''/api/upload/init''
          \<and> answers_json net ''/api/upload/finalize''"
    from uploadFile_all_accepted [of net cb h f] a obtain r where r:
      "fst (uploadFile net cb h f) = Inr r" "success r"
      "requests_of (snd (uploadFile net cb h f))
        = init_request (name f) (size_f f) (total_chunks (size_f f))
          # map (\<lambda>i. chunk_request (uploadId r) i (chunk_of f i)) [0 ..< total_chunks (size_f f)]
          @ [finalize_request (uploadId r)]"
      by blast
    have pos: "0 < size_f f" "size_f f < 2 ^ 53" by (simp_all add: sz)
    have c: "chunk_of f i = PBlob f (i * CHUNK_SIZE) ((i + 1) * CHUNK_SIZE)" if "i < 24" for i
    proof -
      from that have "(i + 1) * CHUNK_SIZE \<le> 24 * CHUNK_SIZE" by (intro mult_le_mono1) simp
      then have "min (size_f f) ((i + 1) * CHUNK_SIZE) = (i + 1) * CHUNK_SIZE"
        by (simp add: sz CHUNK_SIZE_def)
      with chunk_of_range [OF pos, of i] that n show ?thesis by simp
    qed
    have "map (\<lambda>i. chunk_request (uploadId r) i (chunk_of f i)) [0 ..< 24]
        = map (\<lambda>i. chunk_request (uploadId r) i
                      (PBlob f (i * CHUNK_SIZE) ((i + 1) * CHUNK_SIZE))) [0 ..< 24]"
      by (rule map_cong) (simp_all add: c)
    with r show "\<exists>r. fst (uploadFile net cb h f) = Inr r \<and> success r
                \<and> requests_of (snd (uploadFile net cb h f))
                   = init_request (name f) (size_f f) 24
                     # map (\<lambda>i. chunk_request (uploadId r) i
                                  (PBlob f (i * CHUNK_SIZE) ((i + 1) * CHUNK_SIZE))) [0 ..< 24]
                     @ [finalize_request (uploadId r)]"
      by (intro exI [of _ r]) (simp add: n)
  qed
  from A B C C' n D show ?thesis by blast
qed

lemma net_plain_chunks_accepts:
  "accepts_all net_plain_chunks \<and> answers_json net_plain_chunks ''/api/upload/init''
     \<and> answers_json net_plain_chunks ''/api/upload/finalize''"
  by (simp add: accepts_all_def answers_json_def accepted_def net_plain_chunks_def ok_def
      ok_json_def)

theorem one_large_file_paths_witness:
  "snd (uploadDocuments net_ok [] (Some [mk_file ''big.bin'' (MB 120)]))
     = [Fetch (Request ''/api/upload-single'' ''POST'' []
                 (Multipart [(''files'', PFile (mk_file ''big.bin'' (MB 120)))]))]
   \<and> total_chunks (size_f (mk_file ''big.bin'' (MB 120))) = 24
   \<and> length (requests_of
       (snd (uploadFile net_plain_chunks throwing [] (mk_file ''big.bin'' (MB 120))))) = 26
   \<and> (\<exists>res. fst (uploadDocuments net_ok [] (Some [mk_file ''big.bin'' (MB 120)])) = Inr res
          \<and> get_prop res ''upload_method'' = Inr (Json (JStr ''chunked'')))"
proof -
  let ?f = "mk_file ''big.bin'' (MB 120)"
  have a: "size_f ?f = 120 * 1024 * 1024" by (simp add: mk_file_def MB_def)
  note t = one_large_file_paths [OF a, of net_ok "[]"]
  from t have 1: "snd (uploadDocuments net_ok [] (Some [?f]))
     = [Fetch (Request ''/api/upload-single'' ''POST'' [] (Multipart [(''files'', PFile ?f)]))]"
    by blast
  from t have 2: "total_chunks (size_f ?f) = 24" by blast
  note d = one_large_file_paths [OF a, of net_plain_chunks "[]" _ _ _ throwing,
      THEN conjunct2, THEN conjunct2, THEN conjunct2, THEN conjunct2, THEN conjunct2,
      rule_format, OF net_plain_chunks_accepts]
  from d obtain r where
    "fst (uploadFile net_plain_chunks throwing [] ?f) = Inr r \<and> success r
     \<and> requests_of (snd (uploadFile net_plain_chunks throwing [] ?f))
                   = init_request (name ?f) (size_f ?f) 24
                     # map (\<lambda>i. chunk_request (uploadId r) i
                                  (PBlob ?f (i * CHUNK_SIZE) ((i + 1) * CHUNK_SIZE))) [0 ..< 24]
                     @ [finalize_request (uploadId r)]"
    by (elim exE)
  then have 3: "length (requests_of (snd (uploadFile net_plain_chunks throwing [] ?f))) = 26"
    by simp
  have "net_ok [] (Request ''/api/upload-single'' ''POST'' [] (Multipart [(''files'', PFile ?f)]))
      = Response 200 ''{}'' (Inr ok_json) \<and> ok 200 \<and> ok_json \<noteq> JNull"
    by (simp add: net_ok_def ok_def ok_json_def)
  with one_large_file_paths [OF a, of net_ok "[]" 200 "''{}''" ok_json]
  have 4: "\<exists>res. fst (uploadDocuments net_ok [] (Some [?f])) = Inr res
          \<and> get_prop res ''upload_method'' = Inr (Json (JStr ''chunked''))"
    by blast
  from 1 2 3 4 show ?thesis by blast
qed

text \<open>
  C7 as stated fails: for one file of 120 MB, on the network that accepts every request,
  the only request of \<^verbatim>\<open>uploadDocuments\<close> is the POST of the whole file to
  \<^verbatim>\<open>/api/upload-single\<close>; there are not 24 chunk posts and there is no finalize call. The
  result does carry \<^verbatim>\<open>upload_method: 'chunked'\<close>.
\<close>

theorem one_large_file_is_posted_whole:
  "requests_of (snd (uploadDocuments net_ok [] (Some [mk_file ''big.bin'' (MB 120)])))
     = [Request ''/api/upload-single'' ''POST'' []
          (Multipart [(''files'', PFile (mk_file ''big.bin'' (MB 120)))])]
   \<and> fst (uploadDocuments net_ok [] (Some [mk_file ''big.bin'' (MB 120)]))
     = Inr (JObj [(''success'', JBool True), (''artifact_ids'', JArr [JStr ''a1'']),
                  (''message'', JStr ''Uploaded 1 large documents successfully (chunked)''),
                  (''upload_method'', JStr ''chunked'')])"
proof -
  let ?f = "mk_file ''big.bin'' (MB 120)"
  have lim: "CLOUD_RUN_LIMIT < size_f ?f" "size_f ?f \<le> MAX_FILE_SIZE"
    by (simp_all add: mk_file_def MB_def CLOUD_RUN_LIMIT_def MAX_FILE_SIZE_def)
  have 1: "requests_of (snd (uploadDocuments net_ok [] (Some [?f])))
     = [Request ''/api/upload-single'' ''POST'' [] (Multipart [(''files'', PFile ?f)])]"
    using uploadDocuments_one_large(2) [OF lim, of net_ok "[]"] by (simp add: single_request_def)
  have 2: "fst (uploadDocuments net_ok [] (Some [?f]))
     = Inr (JObj [(''success'', JBool True), (''artifact_ids'', JArr [JStr ''a1'']),
                  (''message'', JStr ''Uploaded 1 large documents successfully (chunked)''),
                  (''upload_method'', JStr ''chunked'')])"
    unfolding uploadDocuments_one_large(1) [OF lim]
    by (simp add: uploadDocumentsChunked_def net_ok_def ok_def ok_json_def artifact_ids_of_def
        show_nat.simps digit_char_def)
  from 1 2 show ?thesis by blast
qed

section \<open>The per-file classifier\<close>

lemma uploadFile_first_request:
  "init_request (name f) (size_f f) (total_chunks (size_f f))
     \<in> set (requests_of (snd (uploadFile net cb h f)))"
  by (simp add: uploadFile_run split: sum.splits prod.splits)

lemma uploadFile_no_direct_post:
  "r \<in> set (requests_of (snd (uploadFile net cb h f))) \<Longrightarrow> url r \<noteq> ''/api/upload''"
  using uploadFile_requests [of r net cb h f] request_endpoints by auto

lemma uploadFiles_step_requests:
  "requests_of (snd (uploadFiles_step net cb h f acc))
     = (if needsChunkedUpload f
        then requests_of (snd (uploadFile net (\<lambda>h' p. cb h' (name f) (percentage p)) h f))
        else [simple_request f])"
  by (cases acc) (simp add: uploadFiles_step_def split: prod.splits sum.splits response.splits)

lemma uploadFiles_loop_requests:
  "r \<in> set (requests_of (snd (uploadFiles_loop net cb h fs acc)))
     \<Longrightarrow> (\<exists>g \<in> set fs. needsChunkedUpload g
            \<and> (\<exists>h' cb'. r \<in> set (requests_of (snd (uploadFile net cb' h' g)))))
       \<or> (\<exists>g \<in> set fs. \<not> needsChunkedUpload g \<and> r = simple_request g)"
proof (induction fs arbitrary: h acc)
  case Nil
  then show ?case by simp
next
  case (Cons f fs)
  obtain acc' ev where step: "uploadFiles_step net cb h f acc = (acc', ev)"
    by (cases "uploadFiles_step net cb h f acc")
  obtain x ev' where rest: "uploadFiles_loop net cb (h @ ev) fs acc' = (x, ev')"
    by (cases "uploadFiles_loop net cb (h @ ev) fs acc'")
  from Cons.prems step rest have "r \<in> set (requests_of ev) \<or> r \<in> set (requests_of ev')"
    by simp
  then show ?case
  proof
    assume "r \<in> set (requests_of ev)"
    with step uploadFiles_step_requests [of net cb h f acc]
    have "(needsChunkedUpload f
           \<and> r \<in> set (requests_of
                       (snd (uploadFile net (\<lambda>h' p. cb h' (name f) (percentage p)) h f))))
        \<or> (\<not> needsChunkedUpload f \<and> r = simple_request f)"
      by (auto split: if_splits)
    then show ?thesis by auto
  next
    assume "r \<in> set (requests_of ev')"
    with rest have "r \<in> set (requests_of (snd (uploadFiles_loop net cb (h @ ev) fs acc')))" by simp
    from Cons.IH [OF this] show ?thesis by auto
  qed
qed

lemma uploadFiles_loop_init:
  "g \<in> set fs \<Longrightarrow> needsChunkedUpload g
     \<Longrightarrow> init_request (name g) (size_f g) (total_chunks (size_f g))
           \<in> set (requests_of (snd (uploadFiles_loop net cb h fs acc)))"
proof (induction fs arbitrary: h acc)
  case Nil
  then show ?case by simp
next
  case (Cons f fs)
  obtain acc' ev where step: "uploadFiles_step net cb h f acc = (acc', ev)"
    by (cases "uploadFiles_step net cb h f acc")
  obtain x ev' where rest: "uploadFiles_loop net cb (h @ ev) fs acc' = (x, ev')"
    by (cases "uploadFiles_loop net cb (h @ ev) fs acc'")
  have all: "requests_of (snd (uploadFiles_loop net cb h (f # fs) acc))
      = requests_of ev @ requests_of ev'"
    using step rest by simp
  show ?case
  proof (cases "g = f")
    case True
    with Cons.prems(2) step uploadFiles_step_requests [of net cb h f acc]
    have "requests_of ev
        = requests_of (snd (uploadFile net (\<lambda>h' p. cb h' (name f) (percentage p)) h f))"
      by simp
    with True uploadFile_first_request [of f net "\<lambda>h' p. cb h' (name f) (percentage p)" h] all
    show ?thesis by simp
  next
    case False
    with Cons.prems have "g \<in> set fs" by simp
    from Cons.IH [OF this Cons.prems(2), of "h @ ev" acc'] rest all show ?thesis by simp
  qed
qed

lemma uploadFiles_requests:
  "requests_of (snd (uploadFiles net cb h files))
     = requests_of (snd (uploadFiles_loop net cb h files ([], [])))"
  by (simp add: uploadFiles_def split: prod.splits)

text \<open>
  C2, as amended. For a file \<open>f\<close> larger than 25 MB, \<^verbatim>\<open>needsChunkedUpload(f)\<close> is true, and
  \<^verbatim>\<open>uploadFiles\<close>, the entry point that consults this classifier, sends \<open>f\<close> through
  \<^verbatim>\<open>ChunkedUploader.uploadFile\<close> whatever else is in the batch and whatever the progress
  callback does: the init request for \<open>f\<close> is made, \<open>f\<close> is never posted whole to
  \<^verbatim>\<open>/api/upload\<close>, and every request \<^verbatim>\<open>uploadFiles\<close> does post to \<^verbatim>\<open>/api/upload\<close> carries
  one file of at most 25 MB.
  (\<^verbatim>\<open>uploadDocuments\<close> does not consult the classifier; its routing is that of C1.)
\<close>

theorem large_file_takes_chunked_uploader:
  assumes "25 * 1024 * 1024 < size_f f"
  shows "needsChunkedUpload f
    \<and> (f \<in> set files \<longrightarrow>
         init_request (name f) (size_f f) (total_chunks (size_f f))
           \<in> set (requests_of (snd (uploadFiles net cb h files))))
    \<and> Request ''/api/upload'' ''POST'' [] (Multipart [(''files'', PFile f)])
         \<notin> set (requests_of (snd (uploadFiles net cb h files)))
    \<and> (\<forall>r \<in> set (requests_of (snd (uploadFiles net cb h files))).
          url r = ''/api/upload'' \<longrightarrow>
            (\<exists>g \<in> set files. size_f g \<le> 25 * 1024 * 1024
               \<and> r = Request ''/api/upload'' ''POST'' [] (Multipart [(''files'', PFile g)])))"
proof -
  have A: "needsChunkedUpload f" using assms by (simp add: needsChunkedUpload_def)
  have B: "f \<in> set files \<longrightarrow>
         init_request (name f) (size_f f) (total_chunks (size_f f))
           \<in> set (requests_of (snd (uploadFiles net cb h files)))"
    using A by (simp add: uploadFiles_requests uploadFiles_loop_init)
  have D: "\<forall>r \<in> set (requests_of (snd (uploadFiles net cb h files))).
          url r = ''/api/upload'' \<longrightarrow>
            (\<exists>g \<in> set files. size_f g \<le> 25 * 1024 * 1024
               \<and> r = Request ''/api/upload'' ''POST'' [] (Multipart [(''files'', PFile g)]))"
  proof (intro ballI impI)
    fix r
    assume r: "r \<in> set (requests_of (snd (uploadFiles net cb h files)))" and u: "url r = ''/api/upload''"
    from r have "r \<in> set (requests_of (snd (uploadFiles_loop net cb h files ([], []))))"
      by (simp add: uploadFiles_requests)
    from uploadFiles_loop_requests [OF this] u uploadFile_no_direct_post
    obtain g where "g \<in> set files" "\<not> needsChunkedUpload g" "r = simple_request g"
      by blast
    then show "\<exists>g \<in> set files. size_f g \<le> 25 * 1024 * 1024
               \<and> r = Request ''/api/upload'' ''POST'' [] (Multipart [(''files'', PFile g)])"
      by (auto simp: needsChunkedUpload_def simple_request_def)
  qed
  have C: "Request ''/api/upload'' ''POST'' [] (Multipart [(''files'', PFile f)])
         \<notin> set (requests_of (snd (uploadFiles net cb h files)))"
  proof
    assume "Request ''/api/upload'' ''POST'' [] (Multipart [(''files'', PFile f)])
         \<in> set (requests_of (snd (uploadFiles net cb h files)))"
    with D obtain g where "size_f g \<le> 25 * 1024 * 1024"
      "Request ''/api/upload'' ''POST'' [] (Multipart [(''files'', PFile f)])
         = Request ''/api/upload'' ''POST'' [] (Multipart [(''files'', PFile g)])"
      by fastforce
    with assms show False by simp
  qed
  from A B C D show ?thesis by blast
qed

theorem large_file_takes_chunked_uploader_witness:
  "needsChunkedUpload (mk_file ''mid.bin'' (MB 26))
   \<and> init_request ''mid.bin'' 27262976 6
       \<in> set (requests_of (snd (uploadFiles net_down quiet_files []
                [mk_file ''small.pdf'' (MB 1), mk_file ''mid.bin'' (MB 26)])))"
proof -
  let ?f = "mk_file ''mid.bin'' (MB 26)"
  have a: "25 * 1024 * 1024 < size_f ?f" by (simp add: mk_file_def MB_def)
  have n: "total_chunks 27262976 = 6"
    by (simp add: total_chunks_def CHUNK_SIZE_def double_eval)
  have m: "?f \<in> set [mk_file ''small.pdf'' (MB 1), ?f]" by simp
  from large_file_takes_chunked_uploader [OF a, of "[mk_file ''small.pdf'' (MB 1), ?f]" net_down
      quiet_files "[]"] m
  have "needsChunkedUpload ?f
    \<and> init_request (name ?f) (size_f ?f) (total_chunks (size_f ?f))
           \<in> set (requests_of (snd (uploadFiles net_down quiet_files [] [mk_file ''small.pdf'' (MB 1), ?f])))"
    by blast
  then show ?thesis by (simp add: mk_file_def MB_def n)
qed

text \<open>
  C2 as stated fails for \<^verbatim>\<open>uploadDocuments\<close>: a single file of 26 MB is above the per-file
  threshold, its batch total is below 30 MB, and the only request is the direct POST of
  the whole file to \<^verbatim>\<open>/api/upload\<close>.
\<close>

theorem large_file_in_small_batch_is_posted_directly:
  "needsChunkedUpload (mk_file ''mid.bin'' (MB 26))
   \<and> requests_of (snd (uploadDocuments net_ok [] (Some [mk_file ''mid.bin'' (MB 26)])))
     = [Request ''/api/upload'' ''POST'' []
          (Multipart [(''files'', PFile (mk_file ''mid.bin'' (MB 26)))])]"
proof -
  let ?f = "mk_file ''mid.bin'' (MB 26)"
  have 1: "needsChunkedUpload ?f" by (simp add: needsChunkedUpload_def mk_file_def MB_def)
  have v: "[?f] \<noteq> []" "\<forall>g \<in> set [?f]. size_f g \<le> MAX_FILE_SIZE" "total_size [?f] \<le> MAX_TOTAL_SIZE"
    by (simp_all add: mk_file_def MB_def MAX_FILE_SIZE_def MAX_TOTAL_SIZE_def total_size_sum_list)
  have s: "\<not> CLOUD_RUN_LIMIT < total_size [?f]"
    by (simp add: mk_file_def MB_def CLOUD_RUN_LIMIT_def total_size_sum_list)
  have 2: "requests_of (snd (uploadDocuments net_ok [] (Some [?f])))
     = [Request ''/api/upload'' ''POST'' [] (Multipart [(''files'', PFile ?f)])]"
    using uploadDocuments_valid [OF v, of net_ok "[]"] s
    by (simp add: upload_request_def)
  from 1 2 show ?thesis by blast
qed

section \<open>The proxy\<close>

lemma NextResponse_json_accepts:
  "200 \<le> st \<Longrightarrow> st \<le> 599 \<Longrightarrow> st \<noteq> 204 \<Longrightarrow> st \<noteq> 205 \<Longrightarrow> st \<noteq> 304
     \<Longrightarrow> NextResponse_json data st = Inr (NextResponse data st)"
  by (simp add: NextResponse_json_def null_body_status_def)

text \<open>
  C8, as amended. When the form data of the request can be read, the handler sets the
  abort timer to 600000 ms and forwards the form to the backend's \<^verbatim>\<open>/upload_documents\<close>
  with the signal of that timer's controller; it clears the timer once the backend has
  responded. A response with a non-success status that a response with a body may carry,
  that is a status from 300 to 599 other than 304, is answered with that status and the
  body \<^verbatim>\<open>{success: false, error: "Backend error: <status>", details: <text of the
  response>}\<close>. A response with a status in 200..299 whose body parses as JSON is answered
  with that JSON value. When the form data cannot be read nothing is forwarded. The
  handler always returns a response.
\<close>

theorem proxy_forward_contract:
  "snd (POST api_base (Inr formData) backend)
     = [SetTimeout 600000,
        Forward (BackendRequest (api_base @ ''/upload_documents'') ''POST'' formData 600000)]
       @ (case backend (BackendRequest (api_base @ ''/upload_documents'') ''POST'' formData 600000)
          of NetworkFailure m \<Rightarrow> [] | Response st txt js \<Rightarrow> [ClearTimeout])
   \<and> (backend (BackendRequest (api_base @ ''/upload_documents'') ''POST'' formData 600000)
          = Response st txt js \<and> 300 \<le> st \<and> st \<le> 599 \<and> st \<noteq> 304
        \<longrightarrow> fst (POST api_base (Inr formData) backend)
            = Inr (NextResponse
                (JObj [(''success'', JBool False),
                       (''error'', JStr (''Backend error: '' @ show_nat st)),
                       (''details'', JStr txt)]) st))
   \<and> (backend (BackendRequest (api_base @ ''/upload_documents'') ''POST'' formData 600000)
          = Response st txt (Inr result) \<and> ok st
        \<longrightarrow> fst (POST api_base (Inr formData) backend) = Inr (NextResponse result 200))
   \<and> snd (POST api_base (Inl m) backend) = []
   \<and> (\<exists>r. fst (POST api_base form backend) = Inr r)"
proof -
  let ?req = "BackendRequest (api_base @ ''/upload_documents'') ''POST'' formData 600000"
  have e500: "NextResponse_json data 500 = Inr (NextResponse data 500)" for data
    by (simp add: NextResponse_json_accepts)
  have e200: "NextResponse_json data 200 = Inr (NextResponse data 200)" for data
    by (simp add: NextResponse_json_accepts)
  have A: "snd (POST api_base (Inr formData) backend)
     = [SetTimeout 600000, Forward ?req]
       @ (case backend ?req of NetworkFailure m \<Rightarrow> [] | Response st txt js \<Rightarrow> [ClearTimeout])"
    by (simp add: POST_def POST_try_def forward_request_def
        split: response.splits sum.splits prod.splits)
  have B: "backend ?req = Response st txt js \<and> 300 \<le> st \<and> st \<le> 599 \<and> st \<noteq> 304
        \<longrightarrow> fst (POST api_base (Inr formData) backend)
            = Inr (NextResponse
                (JObj [(''success'', JBool False),
                       (''error'', JStr (''Backend error: '' @ show_nat st)),
                       (''details'', JStr txt)]) st)"
  proof
    assume a: "backend ?req = Response st txt js \<and> 300 \<le> st \<and> st \<le> 599 \<and> st \<noteq> 304"
    then have n: "\<not> ok st" by (simp add: ok_def)
    from a have "NextResponse_json (backend_error st txt) st
        = Inr (NextResponse (backend_error st txt) st)"
      by (intro NextResponse_json_accepts) simp_all
    with a n show "fst (POST api_base (Inr formData) backend)
            = Inr (NextResponse
                (JObj [(''success'', JBool False),
                       (''error'', JStr (''Backend error: '' @ show_nat st)),
                       (''details'', JStr txt)]) st)"
      by (simp add: POST_def POST_try_def forward_request_def backend_error_def)
  qed
  have C: "backend ?req = Response st txt (Inr result) \<and> ok st
        \<longrightarrow> fst (POST api_base (Inr formData) backend) = Inr (NextResponse result 200)"
    by (simp add: POST_def POST_try_def forward_request_def e200)
  have D: "snd (POST api_base (Inl m) backend) = []"
    by (simp add: POST_def POST_try_def)
  have E: "\<exists>r. fst (POST api_base form backend) = Inr r"
    by (cases "POST_try api_base form backend"; cases "fst (POST_try api_base form backend)")
       (simp_all add: POST_def e500)
  from A B C D E show ?thesis by blast
qed

theorem proxy_forward_contract_witness:
  "fst (POST ''https://backend'' (Inr [(''files'', PFile (mk_file ''a.pdf'' (MB 1)))])
          backend_too_large)
     = Inr (NextResponse
         (JObj [(''success'', JBool False), (''error'', JStr ''Backend error: 413''),
                (''details'', JStr ''too large'')]) 413)
   \<and> fst (POST ''https://backend'' (Inr [(''files'', PFile (mk_file ''a.pdf'' (MB 1)))])
          backend_stored)
     = Inr (NextResponse (JObj [(''artifact_ids'', JArr [JStr ''a1''])]) 200)"
  using proxy_forward_contract [of "''https://backend''" "[(''files'', PFile (mk_file ''a.pdf'' (MB 1)))]"
          backend_too_large 413 "''too large''" "Inl ''Unexpected token''"]
        proxy_forward_contract [of "''https://backend''" "[(''files'', PFile (mk_file ''a.pdf'' (MB 1)))]"
          backend_stored 200 "''{}''"
          "Inr (JObj [(''artifact_ids'', JArr [JStr ''a1''])])" "JObj [(''artifact_ids'', JArr [JStr ''a1''])]"]
  by (simp add: ok_def show_nat.simps digit_char_def backend_too_large_def backend_stored_def)

text \<open>
  C8 as stated fails at the statuses that \<^verbatim>\<open>NextResponse.json\<close> refuses. A backend that
  answers 304, or 999, has responded with a non-success status; the call of
  \<^verbatim>\<open>NextResponse.json\<close> with that status throws inside the \<^verbatim>\<open>try\<close> block, and the \<^verbatim>\<open>catch\<close>
  block answers with status 500 and the error \<^verbatim>\<open>Proxy server error\<close>, not with the
  backend's status.
\<close>

theorem refused_status_is_answered_500:
  "POST ''https://backend'' (Inr [(''files'', PFile (mk_file ''a.pdf'' (MB 1)))])
      backend_not_modified
     = (Inr (NextResponse
          (JObj [(''success'', JBool False), (''error'', JStr ''Proxy server error''),
                 (''details'', JStr ''Response constructor: Invalid response status code 304'')])
          500),
        [SetTimeout 600000,
         Forward (BackendRequest ''https://backend/upload_documents'' ''POST''
                    [(''files'', PFile (mk_file ''a.pdf'' (MB 1)))] 600000),
         ClearTimeout])
   \<and> map_sum message resp_status (fst (POST ''https://backend''
         (Inr [(''files'', PFile (mk_file ''a.pdf'' (MB 1)))]) backend_out_of_range)) = Inr 500"
proof -
  have s: "show_nat 304 = ''304''" by (simp add: show_nat.simps digit_char_def)
  have 1: "POST ''https://backend'' (Inr [(''files'', PFile (mk_file ''a.pdf'' (MB 1)))])
      backend_not_modified
     = (Inr (NextResponse
          (JObj [(''success'', JBool False), (''error'', JStr ''Proxy server error''),
                 (''details'', JStr ''Response constructor: Invalid response status code 304'')])
          500),
        [SetTimeout 600000,
         Forward (BackendRequest ''https://backend/upload_documents'' ''POST''
                    [(''files'', PFile (mk_file ''a.pdf'' (MB 1)))] 600000),
         ClearTimeout])"
    by (simp add: POST_def POST_try_def forward_request_def backend_not_modified_def ok_def
        NextResponse_json_def null_body_status_def proxy_error_def s)
  have 2: "map_sum message resp_status (fst (POST ''https://backend''
         (Inr [(''files'', PFile (mk_file ''a.pdf'' (MB 1)))]) backend_out_of_range)) = Inr 500"
    by (simp add: POST_def POST_try_def forward_request_def backend_out_of_range_def ok_def
        NextResponse_json_def null_body_status_def proxy_error_def)
  from 1 2 show ?thesis by blast
qed

end
